theory Spec2Isabelle
  imports
    Main
    "HOL-Library.Char_ord"
    "HOL-Library.List_Lexorder"
    "HOL-Library.Multiset"
begin

section \<open>The xks wrapper around the Azure CLI: a shallow embedding of aks.go\<close>

text \<open>
  \<^verbatim>\<open>aks.go\<close> holds four copies of a small Go program, separated by marker lines:
  \<^item> copy 1 (lines 1-226) and copy 4 (lines 612-837) are the same cobra program: the
    commands \<open>auth\<close>, \<open>sub\<close>, \<open>status\<close> and \<open>invoke\<close>;
  \<^item> copy 2 (lines 227-381) is a straight-line \<open>main\<close> over the same helpers, with a
    \<open>loadCredentials\<close> that does assign the globals;
  \<^item> copy 3 (lines 391-599) keeps the subscription in a global, builds the command in
    \<open>executeAzAksCommand\<close> and lists the directory with \<open>os.ReadDir\<close>.
  Functions of copy 1 keep their names; a function of copy 2 or 3 whose name is taken
  carries the number of its copy as a suffix.
\<close>

subsection \<open>Strings\<close>

text \<open>
  A Go string is a sequence of bytes, here a \<open>char list\<close>. The functions of package
  \<open>strings\<close> that the program calls follow the library's own loops.
\<close>

abbreviation NL :: string where
  "NL \<equiv> [CHR 0x0A]"

fun HasPrefix :: "string \<Rightarrow> string \<Rightarrow> bool" where
  "HasPrefix s [] = True"
| "HasPrefix [] (p # ps) = False"
| "HasPrefix (c # cs) (p # ps) = (c = p \<and> HasPrefix cs ps)"

text \<open>\<open>strings.Index\<close>: the offset of the first occurrence, \<open>None\<close> for Go's \<open>-1\<close>.\<close>

fun Index :: "string \<Rightarrow> string \<Rightarrow> nat option" where
  "Index [] sub = (if sub = [] then Some 0 else None)"
| "Index (c # cs) sub =
     (if HasPrefix (c # cs) sub then Some 0 else map_option Suc (Index cs sub))"

text \<open>\<open>strings.Contains(s, substr)\<close> is \<open>Index(s, substr) >= 0\<close>.\<close>

definition Contains :: "string \<Rightarrow> string \<Rightarrow> bool" where
  "Contains s sub = (Index s sub \<noteq> None)"

lemma HasPrefix_length: "HasPrefix s p \<Longrightarrow> length p \<le> length s"
  by (induction s p rule: HasPrefix.induct) auto

lemma Index_bound: "Index s sub = Some m \<Longrightarrow> m + length sub \<le> length s"
proof (induction s arbitrary: m)
  case Nil
  then show ?case by (simp split: if_splits)
next
  case (Cons c cs)
  show ?case
  proof (cases "HasPrefix (c # cs) sub")
    case True
    with Cons.prems have "m = 0" by simp
    with True show ?thesis using HasPrefix_length by fastforce
  next
    case False
    with Cons.prems obtain k where "Index cs sub = Some k" "m = Suc k" by auto
    with Cons.IH show ?thesis by fastforce
  qed
qed

text \<open>
  \<open>strings.Split(s, sep)\<close> (\<open>genSplit\<close> with \<open>n < 0\<close>): cut at the first occurrence of
  \<open>sep\<close>, continue behind it, and end with what is left. An empty separator explodes
  the string into its characters (single bytes here; the program never does that).
\<close>

function Split :: "string \<Rightarrow> string \<Rightarrow> string list" where
  "Split s sep =
     (if sep = [] then map (\<lambda>c. [c]) s
      else case Index s sep of
             None \<Rightarrow> [s]
           | Some m \<Rightarrow> take m s # Split (drop (m + length sep) s) sep)"
  by pat_completeness auto
termination
proof (relation "measure (\<lambda>(s, sep). length s)")
  show "wf (measure (\<lambda>(s, sep). length s))" by simp
next
  fix s sep :: string and m :: nat
  assume "sep \<noteq> []" and "Index s sep = Some m"
  then have "m + length sep \<le> length s" and "0 < length sep"
    by (auto dest: Index_bound)
  then have "length s - (m + length sep) < length s"
    by arith
  then show "((drop (m + length sep) s, sep), (s, sep)) \<in> measure (\<lambda>(s, sep). length s)"
    by simp
qed

declare Split.simps [simp del]

text \<open>
  \<open>strings.Count\<close>: the number of non-overlapping occurrences; for an empty substring,
  one more than the number of characters.
\<close>

function Count :: "string \<Rightarrow> string \<Rightarrow> nat" where
  "Count s sub =
     (if sub = [] then length s + 1
      else case Index s sub of
             None \<Rightarrow> 0
           | Some m \<Rightarrow> 1 + Count (drop (m + length sub) s) sub)"
  by pat_completeness auto
termination
proof (relation "measure (\<lambda>(s, sub). length s)")
  show "wf (measure (\<lambda>(s, sub). length s))" by simp
next
  fix s sub :: string and m :: nat
  assume "sub \<noteq> []" and "Index s sub = Some m"
  then have "m + length sub \<le> length s" and "0 < length sub"
    by (auto dest: Index_bound)
  then have "length s - (m + length sub) < length s"
    by arith
  then show "((drop (m + length sub) s, sub), (s, sub)) \<in> measure (\<lambda>(s, sub). length s)"
    by simp
qed

declare Count.simps [simp del]

text \<open>
  \<open>strings.TrimSpace\<close> removes the white space of Unicode at both ends. \<open>spaceRunes\<close>
  lists the UTF-8 encodings of the characters \<open>unicode.IsSpace\<close> accepts: the six of ASCII,
  U+0085, U+00A0, U+1680, U+2000 to U+200A, U+2028, U+2029, U+202F, U+205F and U+3000.
  \<open>trimPrefixes\<close> removes such encodings from the front for as long as one is there;
  the end of the string is handled on the reversed string with the reversed encodings.
\<close>

definition spaceRunes :: "string list" where
  "spaceRunes =
     [[CHR 0x09], [CHR 0x0A], [CHR 0x0B], [CHR 0x0C], [CHR 0x0D], [CHR 0x20],
      [CHR 0xC2, CHR 0x85], [CHR 0xC2, CHR 0xA0],
      [CHR 0xE1, CHR 0x9A, CHR 0x80],
      [CHR 0xE2, CHR 0x80, CHR 0x80], [CHR 0xE2, CHR 0x80, CHR 0x81],
      [CHR 0xE2, CHR 0x80, CHR 0x82], [CHR 0xE2, CHR 0x80, CHR 0x83],
      [CHR 0xE2, CHR 0x80, CHR 0x84], [CHR 0xE2, CHR 0x80, CHR 0x85],
      [CHR 0xE2, CHR 0x80, CHR 0x86], [CHR 0xE2, CHR 0x80, CHR 0x87],
      [CHR 0xE2, CHR 0x80, CHR 0x88], [CHR 0xE2, CHR 0x80, CHR 0x89],
      [CHR 0xE2, CHR 0x80, CHR 0x8A],
      [CHR 0xE2, CHR 0x80, CHR 0xA8], [CHR 0xE2, CHR 0x80, CHR 0xA9],
      [CHR 0xE2, CHR 0x80, CHR 0xAF],
      [CHR 0xE2, CHR 0x81, CHR 0x9F],
      [CHR 0xE3, CHR 0x80, CHR 0x80]]"

function trimPrefixes :: "string list \<Rightarrow> string \<Rightarrow> string" where
  "trimPrefixes runes s =
     (case find (\<lambda>r. r \<noteq> [] \<and> HasPrefix s r) runes of
        None \<Rightarrow> s
      | Some r \<Rightarrow> trimPrefixes runes (drop (length r) s))"
  by pat_completeness auto
termination
proof (relation "measure (\<lambda>(runes, s). length s)")
  show "wf (measure (\<lambda>(runes, s). length s))" by simp
next
  fix runes :: "string list" and s r :: string
  assume "find (\<lambda>r. r \<noteq> [] \<and> HasPrefix s r) runes = Some r"
  then have "r \<noteq> []" and "HasPrefix s r"
    by (auto simp add: find_Some_iff)
  then have "0 < length r" and "length r \<le> length s"
    by (auto dest: HasPrefix_length)
  then have "length s - length r < length s" by arith
  then show "((runes, drop (length r) s), (runes, s)) \<in> measure (\<lambda>(runes, s). length s)"
    by simp
qed

declare trimPrefixes.simps [simp del]

definition TrimSpace :: "string \<Rightarrow> string" where
  "TrimSpace s =
     rev (trimPrefixes (map rev spaceRunes) (rev (trimPrefixes spaceRunes s)))"

text \<open>\<open>strings.Join(elems, sep)\<close>.\<close>

fun Join :: "string list \<Rightarrow> string \<Rightarrow> string" where
  "Join [] sep = []"
| "Join [e] sep = e"
| "Join (e # es) sep = e @ sep @ Join es sep"

subsection \<open>Errors\<close>

text \<open>
  A Go \<open>error\<close> value. \<open>SkipDir\<close> and \<open>SkipAll\<close> are the sentinels of package
  \<open>filepath\<close>; \<open>PathError\<close> is what the operating system reports for a path;
  \<open>ExitError\<close> is a subprocess that failed; \<open>Errorf\<close> is \<open>fmt.Errorf\<close> with a fixed
  message, \<open>Wrap p e s\<close> is \<open>fmt.Errorf\<close> with the text \<open>p\<close> before and \<open>s\<close> after
  the wrapped error \<open>e\<close> (\<open>%w\<close>). \<open>IndexOutOfRange i n\<close> is the run-time panic of an
  index \<open>i\<close> into a slice of length \<open>n\<close>, \<open>NilDereference\<close> the one of a method
  called on a nil interface. \<open>UsageError\<close> is cobra's answer to a wrong number of arguments.
\<close>

datatype oserr = ENOENT | EACCES | ENOTDIR | EIO

datatype error =
    SkipDir
  | SkipAll
  | PathError oserr
  | ExitError string
  | Errorf string
  | Wrap string error string
  | IndexOutOfRange nat nat
  | NilDereference
  | UsageError

subsection \<open>The directory tree\<close>

text \<open>
  What the file system holds at a path: a file (anything that is not a directory), a
  directory with its entries in the order the system lists them, a directory that
  cannot be read, or a name whose \<open>lstat\<close> fails (the flag says whether its directory
  entry has the type of a directory).
\<close>

datatype fsnode =
    File
  | Dir "(string \<times> fsnode) list"
  | DirNoRead oserr
  | NoStat bool oserr

text \<open>
  A traversal fails somewhere in a tree when \<open>lstat\<close> fails on a name or a directory
  cannot be read, at the root or below it.
\<close>

fun traversal_fails :: "fsnode \<Rightarrow> bool" where
  "traversal_fails File = False"
| "traversal_fails (Dir es) = list_ex (\<lambda>e. traversal_fails (snd e)) es"
| "traversal_fails (DirNoRead e) = True"
| "traversal_fails (NoStat d e) = True"

text \<open>
  Whether a tree holds a file, at any depth, and how many: an unreadable directory and a
  name that cannot be examined show none.
\<close>

fun holds_file :: "fsnode \<Rightarrow> bool" where
  "holds_file File = True"
| "holds_file (Dir es) = list_ex (\<lambda>e. holds_file (snd e)) es"
| "holds_file (DirNoRead e) = False"
| "holds_file (NoStat d e) = False"

fun count_files :: "fsnode \<Rightarrow> nat" where
  "count_files File = 1"
| "count_files (Dir es) = sum_list (map (\<lambda>e. count_files (snd e)) es)"
| "count_files (DirNoRead e) = 0"
| "count_files (NoStat d e) = 0"

text \<open>
  The same tree with the entries of every directory in the order of their names: what
  is left of a directory's state when the order in which the system happens to list the
  entries is put aside.
\<close>

fun listing_sorted :: "fsnode \<Rightarrow> fsnode" where
  "listing_sorted File = File"
| "listing_sorted (Dir es) = Dir (sort_key fst (map (\<lambda>e. (fst e, listing_sorted (snd e))) es))"
| "listing_sorted (DirNoRead e) = DirNoRead e"
| "listing_sorted (NoStat d e) = NoStat d e"

subsection \<open>The process: environment, output, subprocesses, globals\<close>

text \<open>
  A subprocess is its argument vector and the environment it is given. What the external
  program answers is not part of this repository: it is a parameter \<open>sh\<close>, a function
  of the subprocesses run before and of the one run now, which returns the combined
  output and the error of \<open>CombinedOutput\<close>.
\<close>

type_synonym proc = "string list \<times> string list"

type_synonym shell = "proc list \<Rightarrow> proc \<Rightarrow> string \<times> error option"

text \<open>A line of the log: the text of the format and the errors printed into it.\<close>

datatype frag = S string | E error

record state =
  environ :: "(string \<times> string) list"
  cwd :: fsnode
  stdout :: "string list"
  stderr :: "frag list list"
  procs :: "proc list"
  appID :: string
  clientSecret :: string
  tenantID :: string
  loggedIn :: bool
  resourceGroup :: string
  aksName :: string
  currentSubID :: string

text \<open>\<open>os.Getenv\<close> gives the empty string for a variable that is not set.\<close>

definition Getenv :: "state \<Rightarrow> string \<Rightarrow> string" where
  "Getenv st k = (case map_of (environ st) k of None \<Rightarrow> [] | Some v \<Rightarrow> v)"

definition Environ :: "state \<Rightarrow> string list" where
  "Environ st = map (\<lambda>(k, v). k @ ''='' @ v) (environ st)"

definition Println :: "string \<Rightarrow> state \<Rightarrow> state" where
  "Println s st = st\<lparr>stdout := stdout st @ [s @ NL]\<rparr>"

definition Printf :: "string \<Rightarrow> state \<Rightarrow> state" where
  "Printf s st = st\<lparr>stdout := stdout st @ [s]\<rparr>"

definition log_Printf :: "frag list \<Rightarrow> state \<Rightarrow> state" where
  "log_Printf s st = st\<lparr>stderr := stderr st @ [s]\<rparr>"

text \<open>\<open>exec.Command(argv...)\<close> with \<open>Env\<close> set to \<open>env\<close>, then \<open>CombinedOutput()\<close>.\<close>

definition CombinedOutput ::
  "shell \<Rightarrow> string list \<Rightarrow> string list \<Rightarrow> state \<Rightarrow> (string \<times> error option) \<times> state" where
  "CombinedOutput sh args env st =
     (sh (procs st) (args, env), st\<lparr>procs := procs st @ [(args, env)]\<rparr>)"

subsection \<open>Package filepath: Clean, Join and Walk\<close>

text \<open>
  \<open>filepath.Clean\<close> on Unix, element by element: empty elements and \<open>.\<close> vanish,
  \<open>..\<close> removes the element before it, is dropped at the root, and is kept where
  nothing is left to remove. \<open>out\<close> holds the elements kept so far, last one first.
\<close>

fun cleanElems :: "bool \<Rightarrow> string list \<Rightarrow> string list \<Rightarrow> string list" where
  "cleanElems rooted [] out = out"
| "cleanElems rooted (e # es) out =
     (if e = [] \<or> e = ''.'' then cleanElems rooted es out
      else if e = ''..'' then
        (case out of
           [] \<Rightarrow> cleanElems rooted es (if rooted then [] else [''..''])
         | x # xs \<Rightarrow> cleanElems rooted es (if x = ''..'' then ''..'' # out else xs))
      else cleanElems rooted es (e # out))"

definition Clean :: "string \<Rightarrow> string" where
  "Clean path =
     (if path = [] then ''.''
      else let rooted = HasPrefix path ''/'';
               out = cleanElems rooted (Split path ''/'') []
           in if rooted then ''/'' @ Join (rev out) ''/''
              else if out = [] then ''.''
              else Join (rev out) ''/'')"

text \<open>A path element: not empty and free of the separator.\<close>

definition plain :: "string \<Rightarrow> bool" where
  "plain x \<longleftrightarrow> x \<noteq> [] \<and> CHR ''/'' \<notin> set x"

text \<open>\<open>filepath.Join\<close>: leading empty elements are skipped, the rest is joined and cleaned.\<close>

fun filepath_Join :: "string list \<Rightarrow> string" where
  "filepath_Join [] = []"
| "filepath_Join (e # es) =
     (if e \<noteq> [] then Clean (Join (e # es) ''/'') else filepath_Join es)"

datatype FileInfo = FileInfo (IsDir: bool)

fun lstat :: "fsnode \<Rightarrow> oserr + FileInfo" where
  "lstat File = Inr (FileInfo False)"
| "lstat (Dir es) = Inr (FileInfo True)"
| "lstat (DirNoRead e) = Inr (FileInfo True)"
| "lstat (NoStat d e) = Inl e"

text \<open>
  A \<open>WalkFunc\<close> is called with the path, the \<open>FileInfo\<close> (\<open>None\<close> for nil) and the error
  met at that path; the variables its closure captures are the value \<open>'a\<close> it threads.
\<close>

type_synonym 'a WalkFunc =
  "string \<Rightarrow> FileInfo option \<Rightarrow> error option \<Rightarrow> 'a \<Rightarrow> error option \<times> 'a"

text \<open>
  A \<open>WalkFunc\<close> that returns the error it is handed, and no error when it is handed none
  together with a \<open>FileInfo\<close>.
\<close>

definition hands_back_errors :: "'a WalkFunc \<Rightarrow> bool" where
  "hands_back_errors walkFn \<longleftrightarrow>
     (\<forall>path info e acc. walkFn path info (Some e) acc = (Some e, acc)) \<and>
     (\<forall>path i acc. fst (walkFn path (Some i) None acc) = None)"

text \<open>
  \<open>walk\<close> of package \<open>filepath\<close>, on the node found at \<open>path\<close>; \<open>walk_names\<close> is its loop
  over the names of a directory, which \<open>readDirNames\<close> returns sorted. \<open>walk\<close> is entered
  only after \<open>lstat\<close> succeeded, so its equation for \<open>NoStat\<close> is never used by \<open>Walk\<close>.
\<close>

lemma size_list_sort_key: "size_list f (sort_key k xs) = size_list f xs"
proof -
  have "mset (sort_key k xs) = mset xs" by simp
  then have "sum_list (map f (sort_key k xs)) = sum_list (map f xs)"
    by (metis mset_map sum_mset_sum_list)
  then show ?thesis by (simp add: size_list_conv_sum_list)
qed

function walk :: "string \<Rightarrow> fsnode \<Rightarrow> 'a WalkFunc \<Rightarrow> 'a \<Rightarrow> error option \<times> 'a"
  and walk_names ::
    "string \<Rightarrow> (string \<times> fsnode) list \<Rightarrow> 'a WalkFunc \<Rightarrow> 'a \<Rightarrow> error option \<times> 'a" where
  "walk path File walkFn acc = walkFn path (Some (FileInfo False)) None acc"
| "walk path (Dir es) walkFn acc =
     (case walkFn path (Some (FileInfo True)) None acc of
        (Some err1, acc1) \<Rightarrow> (Some err1, acc1)
      | (None, acc1) \<Rightarrow> walk_names path (sort_key fst es) walkFn acc1)"
| "walk path (DirNoRead e) walkFn acc =
     walkFn path (Some (FileInfo True)) (Some (PathError e)) acc"
| "walk path (NoStat d e) walkFn acc = walkFn path None (Some (PathError e)) acc"
| "walk_names path [] walkFn acc = (None, acc)"
| "walk_names path ((name, child) # rest) walkFn acc =
     (let filename = filepath_Join [path, name] in
      case lstat child of
        Inl e \<Rightarrow>
          (case walkFn filename None (Some (PathError e)) acc of
             (Some err, acc1) \<Rightarrow>
               if err \<noteq> SkipDir then (Some err, acc1)
               else walk_names path rest walkFn acc1
           | (None, acc1) \<Rightarrow> walk_names path rest walkFn acc1)
      | Inr fileInfo \<Rightarrow>
          (case walk filename child walkFn acc of
             (Some err, acc1) \<Rightarrow>
               if \<not> IsDir fileInfo \<or> err \<noteq> SkipDir then (Some err, acc1)
               else walk_names path rest walkFn acc1
           | (None, acc1) \<Rightarrow> walk_names path rest walkFn acc1))"
  by pat_completeness auto

termination
  by (relation "measure (\<lambda>x. case x of
          Inl (path, node, walkFn, acc) \<Rightarrow> 2 * size node
        | Inr (path, es, walkFn, acc) \<Rightarrow> 2 * size_list (size_prod (\<lambda>_. 0) size) es + 1)")
     (simp_all add: size_list_sort_key)

text \<open>\<open>filepath.Walk\<close>: \<open>lstat\<close> of the root, then \<open>walk\<close>; the two sentinels end it quietly.\<close>

definition Walk :: "string \<Rightarrow> fsnode \<Rightarrow> 'a WalkFunc \<Rightarrow> 'a \<Rightarrow> error option \<times> 'a" where
  "Walk root node fn acc =
     (let (err, acc1) =
            (case lstat node of
               Inl e \<Rightarrow> fn root None (Some (PathError e)) acc
             | Inr info \<Rightarrow> walk root node fn acc)
      in if err = Some SkipDir \<or> err = Some SkipAll then (None, acc1) else (err, acc1))"

subsection \<open>discoverFiles, copies 1, 2 and 4 (lines 110-125)\<close>

text \<open>
  The closure handed to \<open>filepath.Walk\<close>; \<open>files\<close> is the slice it captures. An error is
  handed back before \<open>info\<close> is looked at.
\<close>

definition discoverFiles_fn :: "string \<Rightarrow> string list WalkFunc" where
  "discoverFiles_fn dirPath path info err files =
     (if err \<noteq> None then (err, files)
      else case info of
             None \<Rightarrow> (Some NilDereference, files)
           | Some i \<Rightarrow>
               if \<not> IsDir i \<and> path \<noteq> dirPath @ ''/'' then (None, files @ [path])
               else (None, files))"

definition discoverFiles :: "string \<Rightarrow> fsnode \<Rightarrow> error + string list" where
  "discoverFiles dirPath node =
     (case Walk dirPath node (discoverFiles_fn dirPath) [] of
        (Some err, files) \<Rightarrow> Inl (Wrap ''failed to discover files: '' err [])
      | (None, files) \<Rightarrow> Inr files)"

subsection \<open>discoverFiles, copy 3 (lines 584-599)\<close>

datatype DirEntry = DirEntry (Name: string) (entryIsDir: bool)

fun hasDirType :: "fsnode \<Rightarrow> bool" where
  "hasDirType File = False"
| "hasDirType (Dir es) = True"
| "hasDirType (DirNoRead e) = True"
| "hasDirType (NoStat d e) = d"

text \<open>\<open>os.ReadDir\<close>: the entries of a directory sorted by file name, or the error.\<close>

fun ReadDir :: "fsnode \<Rightarrow> oserr + DirEntry list" where
  "ReadDir (Dir es) = Inr (map (\<lambda>(name, child). DirEntry name (hasDirType child)) (sort_key fst es))"
| "ReadDir File = Inl ENOTDIR"
| "ReadDir (DirNoRead e) = Inl e"
| "ReadDir (NoStat d e) = Inl e"

fun discoverFiles3_loop :: "string \<Rightarrow> string list \<Rightarrow> DirEntry list \<Rightarrow> string list" where
  "discoverFiles3_loop dir files [] = files"
| "discoverFiles3_loop dir files (entry # entries) =
     discoverFiles3_loop dir
       (if \<not> entryIsDir entry then files @ [filepath_Join [dir, Name entry]] else files)
       entries"

definition discoverFiles3 :: "string \<Rightarrow> fsnode \<Rightarrow> error + string list" where
  "discoverFiles3 dir node =
     (case ReadDir node of
        Inl err \<Rightarrow> Inl (PathError err)
      | Inr entries \<Rightarrow> Inr (discoverFiles3_loop dir [] entries))"

subsection \<open>Copy 1 (and 4): credentials, login, subscription\<close>

text \<open>
  \<open>loadCredentials\<close>, lines 35-51. The three \<open>:=\<close> of lines 36-38 declare variables local
  to the function, which hide the globals of the same names; lines 45-47 assign each
  local to itself. The \<open>let\<close> below binds the locals and repeats the three assignments;
  no field of the state that holds a global is written.
\<close>

definition loadCredentials :: "state \<Rightarrow> error option \<times> state" where
  "loadCredentials st =
     (let appID_local = Getenv st ''AZURE_APP_ID'';
          clientSecret_local = Getenv st ''AZURE_CLIENT_SECRET'';
          tenantID_local = Getenv st ''AZURE_TENANT_ID''
      in if appID_local = [] \<or> clientSecret_local = [] \<or> tenantID_local = [] then
           (Some (Errorf ''missing required environment variables: AZURE_APP_ID, AZURE_CLIENT_SECRET, AZURE_TENANT_ID''), st)
         else
           let appID_local = appID_local;
               clientSecret_local = clientSecret_local;
               tenantID_local = tenantID_local
           in (None, Println ''Loaded credentials from environment variables'' st))"

text \<open>\<open>authenticate\<close>, lines 54-75: the environment of \<open>az login\<close> is built from the globals.\<close>

definition authenticate :: "shell \<Rightarrow> state \<Rightarrow> error option \<times> state" where
  "authenticate sh st =
     (case loadCredentials st of
        (Some err, st1) \<Rightarrow> (Some (Wrap ''failed to load credentials: '' err []), st1)
      | (None, st1) \<Rightarrow>
          (let st2 = Println ''Authenticating...'' st1;
               env = Environ st2 @
                     [''AZURE_APP_ID='' @ appID st2,
                      ''AZURE_CLIENT_SECRET='' @ clientSecret st2,
                      ''AZURE_TENANT_ID='' @ tenantID st2];
               ((output, err), st3) =
                 CombinedOutput sh [''az'', ''login'', ''--service-principal'', ''-i''] env st2
           in (case err of
                 Some e \<Rightarrow>
                   (Some (Wrap ''authentication failed: '' e (NL @ ''Output:'' @ NL @ output)),
                    st3)
               | None \<Rightarrow>
                   (None, (Println ''Authenticated successfully!'' st3)\<lparr>loggedIn := True\<rparr>))))"

text \<open>
  \<open>getSubscriptionID\<close>, lines 78-95. \<open>getSubscriptionID_loop\<close> is the loop over the lines
  of the output; the index \<open>[1]\<close> of line 89 panics when the slice is shorter than two.
\<close>

fun getSubscriptionID_loop :: "string list \<Rightarrow> error + string" where
  "getSubscriptionID_loop [] = Inl (Errorf ''unable to extract subscription ID from output'')"
| "getSubscriptionID_loop (line # lines) =
     (if Contains line ''id:'' then
        (let parts = Split line '':''
         in if 1 < length parts then Inr (TrimSpace (parts ! 1))
            else Inl (IndexOutOfRange 1 (length parts)))
      else getSubscriptionID_loop lines)"

definition getSubscriptionID :: "shell \<Rightarrow> state \<Rightarrow> (error + string) \<times> state" where
  "getSubscriptionID sh st =
     (let ((output, err), st1) = CombinedOutput sh [''az'', ''account'', ''show''] (Environ st) st
      in case err of
           Some e \<Rightarrow>
             (Inl (Wrap ''failed to get subscription ID: '' e (NL @ ''Output:'' @ NL @ output)), st1)
         | None \<Rightarrow> (getSubscriptionID_loop (Split output NL), st1))"

text \<open>\<open>setSubscription\<close>, lines 98-107.\<close>

definition setSubscription :: "shell \<Rightarrow> string \<Rightarrow> state \<Rightarrow> error option \<times> state" where
  "setSubscription sh subscriptionID st =
     (let ((output, err), st1) =
            CombinedOutput sh [''az'', ''account'', ''set'', ''--subscription'', subscriptionID]
              (Environ st) st
      in case err of
           Some e \<Rightarrow>
             (Some (Wrap ''failed to set subscription: '' e (NL @ ''Output:'' @ NL @ output)), st1)
         | None \<Rightarrow> (None, Println (''Set active subscription to: '' @ subscriptionID) st1))"

subsection \<open>Copy 1 (and 4): the commands\<close>

text \<open>The loop of lines 199-202, with \<open>fileParams\<close> as its variable.\<close>

fun fileParams_loop :: "string \<Rightarrow> string list \<Rightarrow> string" where
  "fileParams_loop fileParams [] = fileParams"
| "fileParams_loop fileParams (file # files) =
     fileParams_loop (fileParams @ ('' --file \"'' @ file @ ''\"'')) files"

text \<open>
  \<open>invokeCmd.Run\<close>, lines 191-216. \<open>invoke_fullCommand\<close> is line 204; \<open>resourceGroup\<close>
  and \<open>aksName\<close> are the globals.
\<close>

definition invoke_fullCommand :: "state \<Rightarrow> string \<Rightarrow> string \<Rightarrow> string" where
  "invoke_fullCommand st command fileParams =
     ''az aks command invoke '' @ resourceGroup st @ '' '' @ aksName st @ '' '' @ command
       @ fileParams"

definition invokeCmd_Run :: "shell \<Rightarrow> string list \<Rightarrow> state \<Rightarrow> error option \<times> state" where
  "invokeCmd_Run sh args st =
     (let command = Join args '' '' in
      case discoverFiles ''.'' (cwd st) of
        Inl err \<Rightarrow> (Some (Wrap ''failed to discover files: '' err []), st)
      | Inr files \<Rightarrow>
          (let fileParams = fileParams_loop [] files;
               fullCommand = invoke_fullCommand st command fileParams;
               st1 = Println fullCommand st;
               ((output, err), st2) =
                 CombinedOutput sh [''bash'', ''-c'', fullCommand] (Environ st1) st1
           in (case err of
                 Some e \<Rightarrow>
                   (Some (Wrap ''command failed: '' e []),
                    log_Printf [S ''Error executing command: '', E e,
                                S (NL @ ''Output:'' @ NL @ output)] st2)
               | None \<Rightarrow> (None, Println output st2))))"

text \<open>\<open>authCmd.Run\<close>, lines 139-145.\<close>

definition authCmd_Run :: "shell \<Rightarrow> state \<Rightarrow> error option \<times> state" where
  "authCmd_Run sh st =
     (case authenticate sh st of
        (Some err, st1) \<Rightarrow> (Some (Wrap ''authentication failed: '' err []), st1)
      | (None, st1) \<Rightarrow> (None, Println ''Authenticated successfully!'' st1))"

text \<open>\<open>subscriptionSetCmd.Run\<close>, lines 154-161; \<open>args[0]\<close> panics on an empty slice.\<close>

definition subscriptionSetCmd_Run :: "shell \<Rightarrow> string list \<Rightarrow> state \<Rightarrow> error option \<times> state" where
  "subscriptionSetCmd_Run sh args st =
     (case args of
        [] \<Rightarrow> (Some (IndexOutOfRange 0 0), st)
      | subID # _ \<Rightarrow>
          (case setSubscription sh subID st of
             (Some err, st1) \<Rightarrow> (Some (Wrap ''failed to set subscription: '' err []), st1)
           | (None, st1) \<Rightarrow> (None, Println (''Set active subscription to: '' @ subID) st1)))"

definition fmt_bool :: "bool \<Rightarrow> string" where
  "fmt_bool b = (if b then ''true'' else ''false'')"

text \<open>\<open>statusCmd.Run\<close>, lines 168-182 (and 779-793).\<close>

definition statusCmd_Run :: "shell \<Rightarrow> state \<Rightarrow> error option \<times> state" where
  "statusCmd_Run sh st =
     (if \<not> loggedIn st then (Some (Errorf ''not logged in - run 'xks auth' first''), st)
      else case getSubscriptionID sh st of
             (Inl err, st1) \<Rightarrow> (Some err, st1)
           | (Inr subID, st1) \<Rightarrow>
               (None,
                Printf (''  Subscription ID: '' @ subID @ NL)
                  (Printf (''  Logged In: '' @ fmt_bool (loggedIn st1) @ NL)
                    (Println ''Current Status:'' st1))))"

text \<open>
  \<open>main\<close>, lines 127-226: cobra runs the one command the arguments name, after the check
  its \<open>Args\<close> field asks for, and \<open>log.Fatal\<close> ends the process with status 1 on an error.
\<close>

datatype xks_command = Auth | Sub "string list" | Status | Invoke "string list"

definition cobra_Execute :: "shell \<Rightarrow> xks_command \<Rightarrow> state \<Rightarrow> error option \<times> state" where
  "cobra_Execute sh c st =
     (case c of
        Auth \<Rightarrow> authCmd_Run sh st
      | Sub args \<Rightarrow>
          if length args = 1 then subscriptionSetCmd_Run sh args st else (Some UsageError, st)
      | Status \<Rightarrow> statusCmd_Run sh st
      | Invoke args \<Rightarrow>
          if 1 \<le> length args then invokeCmd_Run sh args st else (Some UsageError, st))"

definition main :: "shell \<Rightarrow> xks_command \<Rightarrow> state \<Rightarrow> nat \<times> state" where
  "main sh c st =
     (case cobra_Execute sh c st of
        (Some err, st1) \<Rightarrow> (1, log_Printf [E err] st1)
      | (None, st1) \<Rightarrow> (0, st1))"

subsection \<open>Copy 2: loadCredentials and authenticate (lines 250-284)\<close>

text \<open>Here lines 251-253 use \<open>=\<close>: the globals are assigned, before the check.\<close>

definition loadCredentials2 :: "state \<Rightarrow> error option \<times> state" where
  "loadCredentials2 st =
     (let st1 = st\<lparr>appID := Getenv st ''AZURE_APP_ID'',
                   clientSecret := Getenv st ''AZURE_CLIENT_SECRET'',
                   tenantID := Getenv st ''AZURE_TENANT_ID''\<rparr>
      in if appID st1 = [] \<or> clientSecret st1 = [] \<or> tenantID st1 = [] then
           (Some (Errorf ''missing required environment variables: AZURE_APP_ID, AZURE_CLIENT_SECRET, AZURE_TENANT_ID''), st1)
         else (None, Println ''Loaded credentials from environment variables'' st1))"

definition authenticate2 :: "shell \<Rightarrow> state \<Rightarrow> error option \<times> state" where
  "authenticate2 sh st =
     (case loadCredentials2 st of
        (Some err, st1) \<Rightarrow> (Some (Wrap ''failed to load credentials: '' err []), st1)
      | (None, st1) \<Rightarrow>
          (let st2 = Println ''Authenticating...'' st1;
               env = Environ st2 @
                     [''AZURE_APP_ID='' @ appID st2,
                      ''AZURE_CLIENT_SECRET='' @ clientSecret st2,
                      ''AZURE_TENANT_ID='' @ tenantID st2];
               ((output, err), st3) =
                 CombinedOutput sh [''az'', ''login'', ''--service-principal'', ''-i''] env st2
           in (case err of
                 Some e \<Rightarrow>
                   (Some (Wrap ''authentication failed: '' e (NL @ ''Output:'' @ NL @ output)),
                    st3)
               | None \<Rightarrow>
                   (None, (Println ''Authenticated successfully!'' st3)\<lparr>loggedIn := True\<rparr>))))"

subsection \<open>Copy 3: the subscription kept in a global (lines 404-456)\<close>

text \<open>
  Copy 3 logs in through the Azure SDK instead of a subprocess. What the two SDK calls
  answer is a parameter: the error of \<open>azidentity.NewServicePrincipalLogin\<close> for the three
  credentials, and the error of \<open>rest.NewSubscriptionsClient\<close>.
\<close>

record azsdk =
  NewServicePrincipalLogin :: "string \<Rightarrow> string \<Rightarrow> string \<Rightarrow> error option"
  NewSubscriptionsClient :: "error option"

definition authenticate3 :: "azsdk \<Rightarrow> state \<Rightarrow> error option \<times> state" where
  "authenticate3 sdk st =
     (let appID_local = Getenv st ''AZURE_APP_ID'';
          clientSecret_local = Getenv st ''AZURE_CLIENT_SECRET'';
          tenantID_local = Getenv st ''AZURE_TENANT_ID''
      in if appID_local = [] \<or> clientSecret_local = [] \<or> tenantID_local = [] then
           (Some (Errorf ''required environment variables (AZURE_APP_ID, AZURE_CLIENT_SECRET, AZURE_TENANT_ID) are not set''), st)
         else
           (case NewServicePrincipalLogin sdk appID_local clientSecret_local tenantID_local of
              Some err \<Rightarrow>
                (Some (Wrap ''failed to create service principal credentials: '' err []), st)
            | None \<Rightarrow>
                (None,
                 Println ''Authenticated successfully with Azure!''
                   (st\<lparr>loggedIn := True, currentSubID := Getenv st ''AZURE_SUBSCRIPTION''\<rparr>))))"

text \<open>\<open>setSubscription\<close>, lines 433-447.\<close>

definition setSubscription3 :: "azsdk \<Rightarrow> string \<Rightarrow> state \<Rightarrow> error option \<times> state" where
  "setSubscription3 sdk subscriptionID st =
     (if \<not> loggedIn st then
        (Some (Errorf ''not authenticated - cannot set subscription''), st)
      else case NewSubscriptionsClient sdk of
             Some err \<Rightarrow> (Some (Wrap ''failed to create subscriptions client: '' err []), st)
           | None \<Rightarrow>
               (None,
                (Printf (''Setting active subscription to: '' @ subscriptionID @ NL) st)
                  \<lparr>currentSubID := subscriptionID\<rparr>))"

text \<open>\<open>getSubscription\<close>, lines 450-456.\<close>

definition getSubscription :: "state \<Rightarrow> error + string" where
  "getSubscription st =
     (if \<not> loggedIn st then Inl (Errorf ''not authenticated - no subscription is set'')
      else Inr (currentSubID st))"

subsection \<open>Copy 3: executeAzAksCommand (lines 459-486)\<close>

text \<open>The loop of lines 462-466: three \<open>WriteString\<close> calls on the builder per file.\<close>

definition WriteString :: "string \<Rightarrow> string \<Rightarrow> string" where
  "WriteString builder s = builder @ s"

fun fileParams_builder :: "string \<Rightarrow> string list \<Rightarrow> string" where
  "fileParams_builder fileParams [] = fileParams"
| "fileParams_builder fileParams (file # files) =
     fileParams_builder
       (WriteString (WriteString (WriteString fileParams '' --file \"'') file) ''\"'')
       files"

text \<open>
  Lines 469-470, \<open>Sprintf\<close> of
  \<^verbatim>\<open>az aks command invoke %s --resource-group %s --name %s %s\<close>
  with the command, the resource group, the cluster name and the file parameters.
\<close>

definition executeAzAksCommand_fullCommand ::
  "string \<Rightarrow> string \<Rightarrow> string \<Rightarrow> string \<Rightarrow> string" where
  "executeAzAksCommand_fullCommand command resourceGroup_arg aksName_arg fileParams =
     ''az aks command invoke '' @ command @ '' --resource-group '' @ resourceGroup_arg
       @ '' --name '' @ aksName_arg @ '' '' @ fileParams"

definition executeAzAksCommand ::
  "shell \<Rightarrow> string \<Rightarrow> string \<Rightarrow> string \<Rightarrow> string list \<Rightarrow> state \<Rightarrow> error option \<times> state" where
  "executeAzAksCommand sh command resourceGroup_arg aksName_arg files st =
     (let fileParams = fileParams_builder [] files;
          fullCommand =
            executeAzAksCommand_fullCommand command resourceGroup_arg aksName_arg fileParams;
          st1 = Println (''Executing: '' @ fullCommand) st;
          ((output, err), st2) =
            CombinedOutput sh [''bash'', ''-c'', fullCommand] (Environ st1) st1
      in (case err of
            Some e \<Rightarrow>
              (Some (Wrap ''command failed: '' e []),
               log_Printf [S ''Error executing command: '', E e,
                           S (NL @ ''Output:'' @ NL @ output)] st2)
          | None \<Rightarrow> (None, Println output st2)))"

text \<open>
  The hook of the \<open>invoke\<close> command, lines 551-572, with the values of its three flags.
\<close>

definition invokeCmd_PreExecute ::
  "azsdk \<Rightarrow> shell \<Rightarrow> string \<Rightarrow> string \<Rightarrow> string \<Rightarrow> string list \<Rightarrow> state
     \<Rightarrow> error option \<times> state" where
  "invokeCmd_PreExecute sdk sh resourceGroup_flag name_flag subscriptionOverride args st =
     (let commandToExecute = Join args '' '';
          (err0, st1) =
            (if subscriptionOverride \<noteq> [] then setSubscription3 sdk subscriptionOverride st
             else (None, st))
      in (case err0 of
            Some err \<Rightarrow> (Some (Wrap ''failed to set subscription: '' err []), st1)
          | None \<Rightarrow>
              (case discoverFiles3 ''.'' (cwd st1) of
                 Inl err \<Rightarrow> (Some (Wrap ''failed to discover files: '' err []), st1)
               | Inr files \<Rightarrow>
                   executeAzAksCommand sh commandToExecute resourceGroup_flag name_flag
                     files st1)))"

text \<open>
  The status lines of \<open>main\<close>, lines 519-524: \<open>Some\<close> is the exit status of \<open>log.Fatal\<close>,
  \<open>None\<close> says that \<open>main\<close> goes on.
\<close>

definition main3_status :: "state \<Rightarrow> nat option \<times> state" where
  "main3_status st =
     (case getSubscription st of
        Inl err \<Rightarrow> (Some 1, log_Printf [E err] st)
      | Inr subID \<Rightarrow>
          (None,
           Printf (''Current Status:'' @ NL @ ''  Logged In: '' @ fmt_bool (loggedIn st) @ NL
                   @ ''  Subscription ID: '' @ subID @ NL) st))"

text \<open>The start of \<open>main\<close>, lines 488-524, up to the status lines.\<close>

definition main3_startup :: "azsdk \<Rightarrow> state \<Rightarrow> nat option \<times> state" where
  "main3_startup sdk st =
     (let resourceGroup_local = Getenv st ''RESOURCEGROUP'';
          aksName_local = Getenv st ''AKSNAME'';
          st0 = (if resourceGroup_local = [] \<or> aksName_local = [] then
                   Println ''Using empty values, which will likely result in errors.''
                     (Println ''Warning: RESOURCEGROUP and AKSNAME environment variables not set.'' st)
                 else st)
      in (case authenticate3 sdk st0 of
            (Some err, st1) \<Rightarrow> (Some 1, log_Printf [S ''Authentication failed: '', E err] st1)
          | (None, st1) \<Rightarrow>
              (let subscriptionID = Getenv st1 ''AZURE_SUBSCRIPTION'' in
               if subscriptionID \<noteq> [] then
                 (case setSubscription3 sdk subscriptionID st1 of
                    (Some err, st2) \<Rightarrow>
                      (Some 1, log_Printf [S ''Failed to set default subscription: '', E err] st2)
                  | (None, st2) \<Rightarrow>
                      main3_status
                        (Printf (''Set active subscription to: '' @ subscriptionID @ NL) st2))
               else
                 (case getSubscription st1 of
                    Inl err \<Rightarrow>
                      (Some 1,
                       log_Printf [S ''Failed to retrieve current subscription: '', E err] st1)
                  | Inr subscriptionID \<Rightarrow>
                      main3_status
                        (Printf (''Using current subscription: '' @ subscriptionID @ NL) st1)))))"

subsection \<open>The order of the parts of a command\<close>

text \<open>
  The specification's wording of the assembled command, "the concatenation, in this
  order, of" its parts, read generously: the parts occur in the string one after the
  other, whatever text stands between them. \<open>InOrder\<close> looks for each part behind the
  first occurrence of the one before.
\<close>

fun InOrder :: "string list \<Rightarrow> string \<Rightarrow> bool" where
  "InOrder [] s = True"
| "InOrder (p # ps) s =
     (case Index s p of
        None \<Rightarrow> False
      | Some m \<Rightarrow> InOrder ps (drop (m + length p) s))"

subsection \<open>Concrete runs\<close>

text \<open>
  A process as it starts: the globals hold Go's zero values, nothing is printed and no
  subprocess has run.
\<close>

definition process_start :: "(string \<times> string) list \<Rightarrow> fsnode \<Rightarrow> state" where
  "process_start env tree =
     \<lparr>environ = env, cwd = tree, stdout = [], stderr = [], procs = [],
      appID = [], clientSecret = [], tenantID = [], loggedIn = False,
      resourceGroup = [], aksName = [], currentSubID = []\<rparr>"

text \<open>An external program that prints nothing and always succeeds.\<close>

definition all_fine :: shell where
  "all_fine history p = ([], None)"

definition credentials_env :: "(string \<times> string) list" where
  "credentials_env =
     [(''AZURE_APP_ID'', ''app''), (''AZURE_CLIENT_SECRET'', ''secret''),
      (''AZURE_TENANT_ID'', ''tenant'')]"

definition sdk_fine :: azsdk where
  "sdk_fine = \<lparr>NewServicePrincipalLogin = (\<lambda>a c t. None), NewSubscriptionsClient = None\<rparr>"


text \<open>A working directory with two files, listed by the system in the order b, a.\<close>

definition two_files :: fsnode where
  "two_files = Dir [(''b.yaml'', File), (''a.txt'', File)]"

text \<open>The same process with the two globals that copy 1 never assigns set by hand.\<close>

definition named_start :: state where
  "named_start = (process_start [] two_files)\<lparr>resourceGroup := ''RG'', aksName := ''AKS''\<rparr>"

text \<open>A working directory with a subdirectory that cannot be read.\<close>

definition unreadable_below :: fsnode where
  "unreadable_below =
     Dir [(''a.txt'', File), (''secret'', DirNoRead EACCES), (''z.txt'', File)]"

text \<open>A working directory with a file inside a subdirectory.\<close>

definition with_subdirectory :: fsnode where
  "with_subdirectory = Dir [(''a.txt'', File), (''sub'', Dir [(''c.yaml'', File)])]"




text \<open>A working directory with two files and a subdirectory that holds no file.\<close>

definition with_empty_subdirectory :: fsnode where
  "with_empty_subdirectory =
     Dir [(''b.yaml'', File), (''sub'', Dir [(''empty'', Dir [])]), (''a.txt'', File)]"

section \<open>Properties\<close>

subsection \<open>Occurrences of a substring\<close>

lemma HasPrefix_iff: "HasPrefix s p \<longleftrightarrow> (\<exists>v. s = p @ v)"
  by (induction s p rule: HasPrefix.induct) auto

lemma Index_found_iff: "Index s sub \<noteq> None \<longleftrightarrow> (\<exists>u v. s = u @ sub @ v)"
proof
  show "Index s sub \<noteq> None \<Longrightarrow> \<exists>u v. s = u @ sub @ v"
  proof (induction s)
    case Nil
    then show ?case by (simp split: if_splits)
  next
    case (Cons c cs)
    show ?case
    proof (cases "HasPrefix (c # cs) sub")
      case True
      then obtain v where "c # cs = sub @ v" using HasPrefix_iff by blast
      then have "c # cs = [] @ sub @ v" by simp
      then show ?thesis by blast
    next
      case False
      with Cons.prems have "Index cs sub \<noteq> None" by auto
      with Cons.IH obtain u v where "cs = u @ sub @ v" by blast
      then have "c # cs = (c # u) @ sub @ v" by simp
      then show ?thesis by blast
    qed
  qed
next
  assume "\<exists>u v. s = u @ sub @ v"
  then obtain u v where "s = u @ sub @ v" by blast
  then show "Index s sub \<noteq> None"
  proof (induction u arbitrary: s)
    case Nil
    then have pre: "HasPrefix s sub" using HasPrefix_iff by auto
    show ?case
    proof (cases s)
      case Nil
      with pre have "sub = []" by (cases sub) auto
      with Nil show ?thesis by simp
    next
      case (Cons c cs)
      with pre show ?thesis by simp
    qed
  next
    case (Cons a u')
    then have "Index (u' @ sub @ v) sub \<noteq> None" by blast
    with Cons.prems show ?case by auto
  qed
qed

lemma Split_nonempty: "sep \<noteq> [] \<Longrightarrow> Split s sep \<noteq> []"
  by (subst Split.simps) (simp split: option.splits)

lemma Split_two_parts:
  assumes "sep \<noteq> []" and "Index s sep \<noteq> None"
  shows "2 \<le> length (Split s sep)"
proof -
  from assms(2) obtain m where m: "Index s sep = Some m" by blast
  let ?rest = "Split (drop (m + length sep) s) sep"
  have "Split s sep = take m s # ?rest"
    using assms(1) m by (subst Split.simps) simp
  moreover have "?rest \<noteq> []" using assms(1) by (rule Split_nonempty)
  ultimately show ?thesis by (cases ?rest) auto
qed

lemma Contains_suffix_part:
  assumes "Contains s (a @ b)"
  shows "Index s b \<noteq> None"
proof -
  from assms obtain u v where "s = u @ (a @ b) @ v"
    unfolding Contains_def Index_found_iff by blast
  then have "s = (u @ a) @ b @ v" by simp
  then show ?thesis unfolding Index_found_iff by blast
qed

subsection \<open>The index of line 89\<close>

lemma id_line_two_parts:
  assumes "Contains line ''id:''"
  shows "2 \<le> length (Split line '':'')"
proof -
  have "Index line '':'' \<noteq> None"
    using assms Contains_suffix_part [of line "''id''" "'':''"] by simp
  then show ?thesis
    by (intro Split_two_parts) simp_all
qed

lemma getSubscriptionID_loop_no_panic:
  "getSubscriptionID_loop lines \<noteq> Inl (IndexOutOfRange i n)"
proof (induction lines)
  case Nil
  then show ?case by simp
next
  case (Cons line lines)
  show ?case
  proof (cases "Contains line ''id:''")
    case True
    then have "2 \<le> length (Split line '':'')" by (rule id_line_two_parts)
    with True show ?thesis by (simp add: Let_def)
  next
    case False
    with Cons.IH show ?thesis by simp
  qed
qed

text \<open>
  C10. In \<open>getSubscriptionID\<close> the index \<open>[1]\<close> into the parts of a line split at \<open>:\<close> is
  always in bounds: a line that contains \<open>id:\<close> splits into at least two parts, so
  \<open>getSubscriptionID\<close> never ends in the index panic, whatever the subprocess prints.
\<close>

theorem getSubscriptionID_index_in_bounds:
  "(Contains line ''id:'' \<longrightarrow> 2 \<le> length (Split line '':''))
   \<and> fst (getSubscriptionID sh st) \<noteq> Inl (IndexOutOfRange i n)"
proof
  show "Contains line ''id:'' \<longrightarrow> 2 \<le> length (Split line '':'')"
    using id_line_two_parts by blast
next
  show "fst (getSubscriptionID sh st) \<noteq> Inl (IndexOutOfRange i n)"
    by (simp add: getSubscriptionID_def CombinedOutput_def getSubscriptionID_loop_no_panic
        split: prod.splits option.splits)
qed

theorem getSubscriptionID_index_in_bounds_witness:
  "Contains ''  id: 1234'' ''id:'' \<and> 2 \<le> length (Split ''  id: 1234'' '':'')
   \<and> Split ''  id: 1234'' '':'' = [''  id'', '' 1234'']"
  using getSubscriptionID_index_in_bounds [of "''  id: 1234''"]
  by (simp add: Contains_def Split.simps)

subsection \<open>Credentials and login\<close>

text \<open>
  C9. After a successful \<open>loadCredentials\<close> of copy 1 the globals \<open>appID\<close>,
  \<open>clientSecret\<close> and \<open>tenantID\<close> hold what they held before, and the environment that
  \<open>authenticate\<close> hands to \<open>az login\<close> is built from those earlier values, not from the
  variables just read.
\<close>

theorem loadCredentials_leaves_globals:
  assumes "loadCredentials st = (None, st')"
  shows "appID st' = appID st \<and> clientSecret st' = clientSecret st \<and> tenantID st' = tenantID st
    \<and> procs (snd (authenticate sh st)) =
        procs st @ [([''az'', ''login'', ''--service-principal'', ''-i''],
                     Environ st @ [''AZURE_APP_ID='' @ appID st,
                                   ''AZURE_CLIENT_SECRET='' @ clientSecret st,
                                   ''AZURE_TENANT_ID='' @ tenantID st])]"
proof -
  from assms have st': "st' = Println ''Loaded credentials from environment variables'' st"
    by (simp add: loadCredentials_def Let_def split: if_splits)
  then have globals: "appID st' = appID st" "clientSecret st' = clientSecret st"
    "tenantID st' = tenantID st" "Environ st' = Environ st" "procs st' = procs st"
    by (simp_all add: Println_def Environ_def)
  have "procs (snd (authenticate sh st)) =
        procs st' @ [([''az'', ''login'', ''--service-principal'', ''-i''],
                     Environ st' @ [''AZURE_APP_ID='' @ appID st',
                                   ''AZURE_CLIENT_SECRET='' @ clientSecret st',
                                   ''AZURE_TENANT_ID='' @ tenantID st'])]"
    using assms
    by (simp add: authenticate_def Let_def CombinedOutput_def Println_def Environ_def
        split: prod.splits option.splits)
  with globals show ?thesis by simp
qed

theorem loadCredentials_leaves_globals_witness:
  "fst (loadCredentials (process_start credentials_env File)) = None
   \<and> appID (snd (loadCredentials (process_start credentials_env File))) = []
   \<and> procs (snd (authenticate all_fine (process_start credentials_env File))) =
       [([''az'', ''login'', ''--service-principal'', ''-i''],
         [''AZURE_APP_ID=app'', ''AZURE_CLIENT_SECRET=secret'', ''AZURE_TENANT_ID=tenant'',
          ''AZURE_APP_ID='', ''AZURE_CLIENT_SECRET='', ''AZURE_TENANT_ID=''])]"
proof -
  have run: "loadCredentials (process_start credentials_env File) =
      (None, Println ''Loaded credentials from environment variables''
               (process_start credentials_env File))"
    by (simp add: loadCredentials_def Getenv_def process_start_def credentials_env_def)
  from loadCredentials_leaves_globals [OF run, of all_fine] run
  show ?thesis
    by (simp add: process_start_def credentials_env_def Environ_def)
qed

text \<open>Copy 2, for comparison: there the globals do take the values of the environment.\<close>

lemma loadCredentials2_assigns_globals:
  assumes "loadCredentials2 st = (None, st')"
  shows "appID st' = Getenv st ''AZURE_APP_ID''
     \<and> clientSecret st' = Getenv st ''AZURE_CLIENT_SECRET''
     \<and> tenantID st' = Getenv st ''AZURE_TENANT_ID''"
  using assms by (auto simp add: loadCredentials2_def Let_def Println_def split: if_splits)

text \<open>
  C4. When one of the three credential variables is missing or empty, \<open>authenticate\<close>
  returns an error and no subprocess has run: in copy 1 (and 4) and copy 3 the state is
  untouched, in copy 2 only the three globals were assigned. No login is recorded.
\<close>

theorem authenticate_missing_credentials:
  assumes "Getenv st ''AZURE_APP_ID'' = [] \<or> Getenv st ''AZURE_CLIENT_SECRET'' = []
             \<or> Getenv st ''AZURE_TENANT_ID'' = []"
  shows "authenticate sh st =
           (Some (Wrap ''failed to load credentials: ''
                   (Errorf ''missing required environment variables: AZURE_APP_ID, AZURE_CLIENT_SECRET, AZURE_TENANT_ID'') []),
            st)
     \<and> fst (authenticate2 sh st) =
           Some (Wrap ''failed to load credentials: ''
                   (Errorf ''missing required environment variables: AZURE_APP_ID, AZURE_CLIENT_SECRET, AZURE_TENANT_ID'') [])
     \<and> procs (snd (authenticate2 sh st)) = procs st
     \<and> loggedIn (snd (authenticate2 sh st)) = loggedIn st
     \<and> authenticate3 sdk st =
           (Some (Errorf ''required environment variables (AZURE_APP_ID, AZURE_CLIENT_SECRET, AZURE_TENANT_ID) are not set''),
            st)"
proof -
  have v1: "loadCredentials st =
      (Some (Errorf ''missing required environment variables: AZURE_APP_ID, AZURE_CLIENT_SECRET, AZURE_TENANT_ID''), st)"
    using assms by (auto simp add: loadCredentials_def Let_def)
  obtain st1 where v2: "loadCredentials2 st =
      (Some (Errorf ''missing required environment variables: AZURE_APP_ID, AZURE_CLIENT_SECRET, AZURE_TENANT_ID''), st1)"
      and st1: "procs st1 = procs st" "loggedIn st1 = loggedIn st"
    using assms by (auto simp add: loadCredentials2_def Let_def)
  have v3: "authenticate3 sdk st =
           (Some (Errorf ''required environment variables (AZURE_APP_ID, AZURE_CLIENT_SECRET, AZURE_TENANT_ID) are not set''),
            st)"
    using assms by (auto simp add: authenticate3_def Let_def)
  show ?thesis
    using v1 v2 st1 v3 by (simp add: authenticate_def authenticate2_def)
qed

theorem authenticate_missing_credentials_witness:
  "Getenv (process_start [(''AZURE_APP_ID'', ''app''), (''AZURE_TENANT_ID'', ''tenant'')] File)
     ''AZURE_CLIENT_SECRET'' = []
   \<and> fst (authenticate all_fine
            (process_start [(''AZURE_APP_ID'', ''app''), (''AZURE_TENANT_ID'', ''tenant'')] File))
       \<noteq> None
   \<and> procs (snd (authenticate all_fine
            (process_start [(''AZURE_APP_ID'', ''app''), (''AZURE_TENANT_ID'', ''tenant'')] File)))
       = []"
proof -
  let ?st = "process_start [(''AZURE_APP_ID'', ''app''), (''AZURE_TENANT_ID'', ''tenant'')] File"
  have missing: "Getenv ?st ''AZURE_CLIENT_SECRET'' = []"
    by (simp add: Getenv_def process_start_def)
  then have "Getenv ?st ''AZURE_APP_ID'' = [] \<or> Getenv ?st ''AZURE_CLIENT_SECRET'' = []
             \<or> Getenv ?st ''AZURE_TENANT_ID'' = []"
    by blast
  from authenticate_missing_credentials [OF this, of all_fine sdk_fine] missing
  show ?thesis by (simp add: process_start_def)
qed

subsection \<open>The subscription\<close>








text \<open>
  The start of \<open>main\<close> in copy 3: with \<open>AZURE_SUBSCRIPTION\<close> set, the status it prints
  names that subscription.
\<close>

lemma main3_startup_reports_override:
  assumes "main3_startup sdk st = (None, st')" and "Getenv st ''AZURE_SUBSCRIPTION'' \<noteq> []"
  shows "last (stdout st') = ''Current Status:'' @ NL @ ''  Logged In: true'' @ NL
                  @ ''  Subscription ID: '' @ Getenv st ''AZURE_SUBSCRIPTION'' @ NL"
  using assms
  by (auto simp add: main3_startup_def Let_def authenticate3_def setSubscription3_def
        main3_status_def getSubscription_def Printf_def Println_def log_Printf_def Getenv_def
        fmt_bool_def
        split: if_splits option.splits prod.splits sum.splits)

text \<open>
  In copies 1 and 4 each command runs in a process of its own and only \<open>authenticate\<close>
  sets \<open>loggedIn\<close>: the \<open>status\<close> command of a process that has just started reports
  no subscription, it returns its first error.
\<close>

lemma statusCmd_Run_at_process_start:
  "statusCmd_Run sh (process_start env tree) =
     (Some (Errorf ''not logged in - run 'xks auth' first''), process_start env tree)"
  by (simp add: statusCmd_Run_def process_start_def)

subsection \<open>The file parameters\<close>

lemma fileParams_loop_append:
  "fileParams_loop fp (xs @ ys) = fileParams_loop (fileParams_loop fp xs) ys"
  by (induction xs arbitrary: fp) simp_all

lemma fileParams_loop_acc: "fileParams_loop fp files = fp @ fileParams_loop [] files"
proof (induction files arbitrary: fp)
  case Nil
  then show ?case by simp
next
  case (Cons f fs)
  have "fileParams_loop fp (f # fs) =
        fileParams_loop (fp @ ('' --file \"'' @ f @ ''\"'')) fs" by simp
  also have "\<dots> = (fp @ ('' --file \"'' @ f @ ''\"'')) @ fileParams_loop [] fs"
    by (rule Cons.IH)
  also have "\<dots> = fp @ fileParams_loop ('' --file \"'' @ f @ ''\"'') fs"
    using Cons.IH [of \<open>'' --file "'' @ f @ ''"''\<close>] by simp
  finally show ?case by simp
qed

text \<open>
  C6. Each file's token is the text \<open> --file "\<close>, the path as it is, and \<open>"\<close>, at the
  file's place among the tokens; nothing is escaped, a double quote in the path included.
\<close>

theorem file_token_verbatim:
  "fileParams_loop [] (before @ file # after) =
     fileParams_loop [] before @ '' --file \"'' @ file @ ''\"'' @ fileParams_loop [] after"
proof -
  have "fileParams_loop [] (before @ file # after) =
        fileParams_loop (fileParams_loop [] before) (file # after)"
    by (rule fileParams_loop_append)
  also have "\<dots> = fileParams_loop [] before @ fileParams_loop [] (file # after)"
    by (rule fileParams_loop_acc)
  also have "fileParams_loop [] (file # after) =
             '' --file \"'' @ file @ ''\"'' @ fileParams_loop [] after"
    using fileParams_loop_acc [of \<open>'' --file "'' @ file @ ''"''\<close> after] by simp
  finally show ?thesis .
qed

theorem file_token_verbatim_witness:
  "fileParams_loop [] ([''a.txt''] @ ''my\"file'' # [''b.yaml'']) =
     '' --file \"a.txt\" --file \"my\"file\" --file \"b.yaml\"''"
  using file_token_verbatim [of "[''a.txt'']" \<open>''my"file''\<close> "[''b.yaml'']"]
  by simp

lemma fileParams_loop_concat:
  "fileParams_loop [] files = concat (map (\<lambda>file. '' --file \"'' @ file @ ''\"'') files)"
proof (induction files)
  case Nil
  then show ?case by simp
next
  case (Cons f fs)
  then show ?case
    using fileParams_loop_acc [of \<open>'' --file "'' @ f @ ''"''\<close> fs] by simp
qed

subsection \<open>Occurrences in order\<close>

lemma HasPrefix_take: "HasPrefix s p \<Longrightarrow> take (length p) s = p"
  by (induction s p rule: HasPrefix.induct) auto

lemma Index_split: "Index s p = Some m \<Longrightarrow> s = take m s @ p @ drop (m + length p) s"
proof (induction s arbitrary: m)
  case Nil
  then show ?case by (simp split: if_splits)
next
  case (Cons c cs)
  show ?case
  proof (cases "HasPrefix (c # cs) p")
    case True
    with Cons.prems have "m = 0" by simp
    moreover from True have "take (length p) (c # cs) = p" by (rule HasPrefix_take)
    ultimately show ?thesis by (metis add_0 append_Nil append_take_drop_id take0)
  next
    case False
    with Cons.prems obtain k where k: "Index cs p = Some k" "m = Suc k" by auto
    from Cons.IH [OF k(1)] have "cs = take k cs @ p @ drop (k + length p) cs" .
    with k(2) show ?thesis by simp
  qed
qed

lemma HasPrefix_Index: "HasPrefix s p \<Longrightarrow> Index s p = Some 0"
proof (cases s)
  case Nil
  assume "HasPrefix s p"
  with Nil have "p = []" by (cases p) auto
  with Nil show ?thesis by simp
next
  case (Cons c cs)
  assume "HasPrefix s p"
  with Cons show ?thesis by simp
qed

lemma Index_first: "s = u @ p @ v \<Longrightarrow> \<exists>m. Index s p = Some m \<and> m \<le> length u"
proof (induction u arbitrary: s)
  case Nil
  then have "HasPrefix s p" using HasPrefix_iff by auto
  then have "Index s p = Some 0" by (rule HasPrefix_Index)
  then show ?case by simp
next
  case (Cons a u')
  then obtain k where k: "Index (u' @ p @ v) p = Some k" "k \<le> length u'" by blast
  with Cons.prems show ?case by auto
qed

lemma InOrder_mono: "InOrder ps v \<Longrightarrow> InOrder ps (w @ v)"
proof (induction ps arbitrary: v w)
  case Nil
  then show ?case by simp
next
  case (Cons p ps)
  from Cons.prems obtain k where k: "Index v p = Some k" "InOrder ps (drop (k + length p) v)"
    by (auto split: option.splits)
  let ?rest = "drop (k + length p) v"
  from k(1) have v: "v = take k v @ p @ ?rest" by (rule Index_split)
  from k(1) have kv: "k + length p \<le> length v" by (rule Index_bound)
  have "w @ v = (w @ take k v) @ p @ ?rest" using v by simp
  then obtain m where m: "Index (w @ v) p = Some m" "m \<le> length (w @ take k v)"
    using Index_first by blast
  have "w @ v = ((w @ take k v) @ p) @ ?rest" using v by simp
  then have "drop (m + length p) (w @ v) = drop (m + length p) (((w @ take k v) @ p) @ ?rest)"
    by simp
  also have "\<dots> = drop (m + length p) ((w @ take k v) @ p) @ ?rest"
    using m(2) by simp
  finally have "drop (m + length p) (w @ v) = drop (m + length p) ((w @ take k v) @ p) @ ?rest" .
  moreover have "InOrder ps (drop (m + length p) ((w @ take k v) @ p) @ ?rest)"
    using k(2) by (rule Cons.IH)
  ultimately show ?case using m(1) by simp
qed

lemma InOrder_complete:
  "InOrder (map snd gps) (concat (map (\<lambda>(gap, part). gap @ part) gps) @ rest)"
proof (induction gps)
  case Nil
  then show ?case by simp
next
  case (Cons gp gps)
  obtain g p where gp: "gp = (g, p)" by (cases gp)
  let ?v = "concat (map (\<lambda>(gap, part). gap @ part) gps) @ rest"
  let ?s = "concat (map (\<lambda>(gap, part). gap @ part) (gp # gps)) @ rest"
  have s: "?s = g @ p @ ?v" using gp by simp
  then obtain m where m: "Index ?s p = Some m" "m \<le> length g"
    using Index_first by blast
  have "?s = (g @ p) @ ?v" using s by simp
  then have "drop (m + length p) ?s = drop (m + length p) (g @ p) @ ?v"
    using m(2) by simp
  moreover have "InOrder (map snd gps) (drop (m + length p) (g @ p) @ ?v)"
    using Cons.IH by (rule InOrder_mono)
  ultimately show ?case using m(1) gp by simp
qed

subsection \<open>The assembled command\<close>

lemma fileParams_builder_loop: "fileParams_builder fp files = fileParams_loop fp files"
  by (induction files arbitrary: fp) (simp_all add: WriteString_def)

lemma invokeCmd_Run_procs:
  assumes "discoverFiles ''.'' (cwd st) = Inr files"
  shows "procs (snd (invokeCmd_Run sh args st)) =
           procs st @ [([''bash'', ''-c'',
                         invoke_fullCommand st (Join args '' '') (fileParams_loop [] files)],
                        Environ st)]"
  using assms
  by (simp add: invokeCmd_Run_def Let_def CombinedOutput_def Println_def log_Printf_def
        Environ_def split: prod.splits option.splits)

lemma invokeCmd_Run_error:
  assumes "discoverFiles ''.'' (cwd st) = Inr files"
  shows "fst (invokeCmd_Run sh args st) =
           map_option (\<lambda>e. Wrap ''command failed: '' e [])
             (snd (sh (procs st)
                ([''bash'', ''-c'',
                  invoke_fullCommand st (Join args '' '') (fileParams_loop [] files)],
                 Environ st)))"
  using assms
  by (simp add: invokeCmd_Run_def Let_def CombinedOutput_def Println_def log_Printf_def
        Environ_def split: prod.splits option.splits)

lemma executeAzAksCommand_procs:
  "procs (snd (executeAzAksCommand sh command rg aks files st)) =
     procs st @ [([''bash'', ''-c'',
                   executeAzAksCommand_fullCommand command rg aks (fileParams_loop [] files)],
                  Environ st)]"
  by (simp add: executeAzAksCommand_def Let_def CombinedOutput_def Println_def log_Printf_def
        Environ_def fileParams_builder_loop split: prod.splits option.splits)

text \<open>
  C1. When discovery returns a list of files, the file parameters are one token
  \<open> --file "path"\<close> per file, in the order of the list, and that is what the command
  handed to the shell ends with; the only error \<open>invokeCmd.Run\<close> can then return is the
  subprocess's. Two files give two tokens, an empty list gives none and no error.
\<close>

theorem invoke_one_token_per_file:
  assumes "discoverFiles ''.'' (cwd st) = Inr files"
  shows "fileParams_loop [] files = concat (map (\<lambda>file. '' --file \"'' @ file @ ''\"'') files)
     \<and> procs (snd (invokeCmd_Run sh args st)) =
           procs st @ [([''bash'', ''-c'',
                         invoke_fullCommand st (Join args '' '')
                           (concat (map (\<lambda>file. '' --file \"'' @ file @ ''\"'') files))],
                        Environ st)]
     \<and> fst (invokeCmd_Run sh args st) =
           map_option (\<lambda>e. Wrap ''command failed: '' e [])
             (snd (sh (procs st)
                ([''bash'', ''-c'',
                  invoke_fullCommand st (Join args '' '')
                    (concat (map (\<lambda>file. '' --file \"'' @ file @ ''\"'') files))],
                 Environ st)))"
  using invokeCmd_Run_procs [OF assms, of sh args] invokeCmd_Run_error [OF assms, of sh args]
  by (simp add: fileParams_loop_concat)

lemma discoverFiles_two_files: "discoverFiles ''.'' two_files = Inr [''a.txt'', ''b.yaml'']"
  by (simp add: two_files_def discoverFiles_def Walk_def discoverFiles_fn_def Clean_def
        Split.simps)

lemma discoverFiles_empty: "discoverFiles ''.'' (Dir []) = Inr []"
  by (simp add: discoverFiles_def Walk_def discoverFiles_fn_def)

theorem invoke_one_token_per_file_witness:
  "discoverFiles ''.'' (cwd (process_start [] two_files)) = Inr [''a.txt'', ''b.yaml'']
   \<and> procs (snd (invokeCmd_Run all_fine [''kubectl'', ''apply''] (process_start [] two_files))) =
       [([''bash'', ''-c'',
          ''az aks command invoke   kubectl apply --file \"a.txt\" --file \"b.yaml\"''], [])]
   \<and> Count ''az aks command invoke   kubectl apply --file \"a.txt\" --file \"b.yaml\"'' ''--file''
       = 2
   \<and> fst (invokeCmd_Run all_fine [''kubectl'', ''apply''] (process_start [] two_files)) = None
   \<and> discoverFiles ''.'' (cwd (process_start [] (Dir []))) = Inr []
   \<and> procs (snd (invokeCmd_Run all_fine [''kubectl'', ''apply''] (process_start [] (Dir [])))) =
       [([''bash'', ''-c'', ''az aks command invoke   kubectl apply''], [])]
   \<and> Count ''az aks command invoke   kubectl apply'' ''--file'' = 0
   \<and> fst (invokeCmd_Run all_fine [''kubectl'', ''apply''] (process_start [] (Dir []))) = None"
proof -
  have two: "discoverFiles ''.'' (cwd (process_start [] two_files)) = Inr [''a.txt'', ''b.yaml'']"
    by (simp add: process_start_def discoverFiles_two_files)
  have none: "discoverFiles ''.'' (cwd (process_start [] (Dir []))) = Inr []"
    by (simp add: process_start_def discoverFiles_empty)
  have count2: "Count ''az aks command invoke   kubectl apply --file \"a.txt\" --file \"b.yaml\"''
       ''--file'' = 2"
    by (simp add: Count.simps)
  have count0: "Count ''az aks command invoke   kubectl apply'' ''--file'' = 0"
    by (simp add: Count.simps)
  from invoke_one_token_per_file [OF two, of all_fine "[''kubectl'', ''apply'']"]
    invoke_one_token_per_file [OF none, of all_fine "[''kubectl'', ''apply'']"]
    two none count2 count0
  show ?thesis
    by (simp add: invoke_fullCommand_def process_start_def Environ_def all_fine_def)
qed

text \<open>
  C2, amended. \<open>invokeCmd.Run\<close> of copies 1 and 4 hands the shell the fixed prefix, the
  resource group, the cluster name, the user's command and the file tokens, in this order
  and with single spaces between the first four. \<open>executeAzAksCommand\<close> of copy 3 puts the
  user's command first: the prefix, the command, \<open>--resource-group\<close> and the group,
  \<open>--name\<close> and the cluster, then the file tokens.
\<close>

theorem assembled_command_layout:
  "(discoverFiles ''.'' (cwd st) = Inr files \<longrightarrow>
      procs (snd (invokeCmd_Run sh args st)) =
        procs st @ [([''bash'', ''-c'',
                      ''az aks command invoke '' @ resourceGroup st @ '' '' @ aksName st @ '' ''
                        @ Join args '' '' @ fileParams_loop [] files],
                     Environ st)])
   \<and> procs (snd (executeAzAksCommand sh command rg aks files st)) =
        procs st @ [([''bash'', ''-c'',
                      ''az aks command invoke '' @ command @ '' --resource-group '' @ rg
                        @ '' --name '' @ aks @ '' '' @ fileParams_loop [] files],
                     Environ st)]"
  using invokeCmd_Run_procs [of st files sh args]
    executeAzAksCommand_procs [of sh command rg aks files st]
  by (simp add: invoke_fullCommand_def executeAzAksCommand_fullCommand_def)

theorem assembled_command_layout_witness:
  "discoverFiles ''.'' (cwd named_start) = Inr [''a.txt'', ''b.yaml'']
   \<and> procs (snd (invokeCmd_Run all_fine [''CMD''] named_start)) =
        [([''bash'', ''-c'',
           ''az aks command invoke RG AKS CMD --file \"a.txt\" --file \"b.yaml\"''], [])]
   \<and> procs (snd (executeAzAksCommand all_fine ''CMD'' ''RG'' ''AKS'' [''a.txt'', ''b.yaml'']
                   named_start)) =
        [([''bash'', ''-c'',
           ''az aks command invoke CMD --resource-group RG --name AKS  --file \"a.txt\" --file \"b.yaml\"''],
          [])]"
proof -
  have two: "discoverFiles ''.'' (cwd named_start) = Inr [''a.txt'', ''b.yaml'']"
    by (simp add: named_start_def process_start_def discoverFiles_two_files)
  from assembled_command_layout
         [of named_start "[''a.txt'', ''b.yaml'']" all_fine "[''CMD'']" "''CMD''" "''RG''" "''AKS''"]
       two
  show ?thesis
    by (simp add: named_start_def process_start_def Environ_def)
qed

text \<open>Line 204 has the parts in the order the specification gives.\<close>

lemma invoke_fullCommand_InOrder:
  "InOrder [''az aks command invoke '', resourceGroup st, aksName st, command, fileParams]
     (invoke_fullCommand st command fileParams)"
proof -
  have "invoke_fullCommand st command fileParams =
        concat (map (\<lambda>(gap, part). gap @ part)
          [([], ''az aks command invoke ''), ([], resourceGroup st), ('' '', aksName st),
           ('' '', command), ([], fileParams)]) @ []"
    by (simp add: invoke_fullCommand_def)
  moreover have "InOrder (map snd
          [([], ''az aks command invoke ''), ([], resourceGroup st), ('' '', aksName st),
           ('' '', command), ([], fileParams)])
        (concat (map (\<lambda>(gap, part). gap @ part)
          [([], ''az aks command invoke ''), ([], resourceGroup st), ('' '', aksName st),
           ('' '', command), ([], fileParams)]) @ [])"
    by (rule InOrder_complete)
  ultimately show ?thesis by simp
qed

text \<open>
  C2 as stated fails for \<open>executeAzAksCommand\<close>: in its command the user's command
  \<open>CMD\<close> stands before the resource group and the cluster name, not behind them.
\<close>

theorem executeAzAksCommand_order_counterexample:
  "procs (snd (executeAzAksCommand all_fine ''CMD'' ''RG'' ''AKS'' [''f''] (process_start [] File)))
     = [([''bash'', ''-c'',
          ''az aks command invoke CMD --resource-group RG --name AKS  --file \"f\"''], [])]
   \<and> \<not> InOrder [''az aks command invoke '', ''RG'', ''AKS'', ''CMD'', '' --file \"f\"'']
          ''az aks command invoke CMD --resource-group RG --name AKS  --file \"f\"''"
  by (simp add: executeAzAksCommand_procs executeAzAksCommand_fullCommand_def process_start_def
        Environ_def)

subsection \<open>A failing traversal\<close>

lemma discoverFiles_fn_hands_back: "hands_back_errors (discoverFiles_fn d)"
  by (simp add: hands_back_errors_def discoverFiles_fn_def)

lemma list_ex_sort_key: "list_ex P (sort_key k xs) = list_ex P xs"
  by (simp add: list_ex_iff)

lemma walk_fails_iff:
  fixes walkFn :: "'a WalkFunc"
  shows "hands_back_errors walkFn \<Longrightarrow>
      (traversal_fails node \<longrightarrow> (\<exists>oe. fst (walk path node walkFn acc) = Some (PathError oe))) \<and>
      (\<not> traversal_fails node \<longrightarrow> fst (walk path node walkFn acc) = None)"
    and "hands_back_errors walkFn \<Longrightarrow>
      (list_ex (\<lambda>e. traversal_fails (snd e)) es \<longrightarrow>
         (\<exists>oe. fst (walk_names path es walkFn acc) = Some (PathError oe))) \<and>
      (\<not> list_ex (\<lambda>e. traversal_fails (snd e)) es \<longrightarrow>
         fst (walk_names path es walkFn acc) = None)"
proof (induction path node walkFn acc and path es walkFn acc rule: walk_walk_names.induct)
  case (1 path walkFn acc)
  then show ?case by (simp add: hands_back_errors_def)
next
  case (2 path es walkFn acc)
  obtain acc1 where first: "walkFn path (Some (FileInfo True)) None acc = (None, acc1)"
    using "2.prems" unfolding hands_back_errors_def by (metis fst_conv surj_pair)
  from "2.IH" [OF first [symmetric] refl "2.prems"] first
  show ?case by (simp add: list_ex_sort_key)
next
  case (3 path e walkFn acc)
  then show ?case by (simp add: hands_back_errors_def)
next
  case (4 path d e walkFn acc)
  then show ?case by (simp add: hands_back_errors_def)
next
  case (5 path walkFn acc)
  then show ?case by simp
next
  case (6 path name child rest walkFn acc)
  let ?filename = "filepath_Join [path, name]"
  show ?case
  proof (cases "lstat child")
    case (Inl e)
    then have fails: "traversal_fails child" by (cases child) simp_all
    have "walkFn ?filename None (Some (PathError e)) acc = (Some (PathError e), acc)"
      using "6.prems" by (simp add: hands_back_errors_def)
    with Inl fails show ?thesis by (simp add: Let_def)
  next
    case (Inr info)
    obtain r acc1 where w: "walk ?filename child walkFn acc = (r, acc1)"
      by (cases "walk ?filename child walkFn acc")
    from "6.IH"(3) [OF refl Inr "6.prems"] w
    have child: "traversal_fails child \<longrightarrow> (\<exists>oe. r = Some (PathError oe))"
      "\<not> traversal_fails child \<longrightarrow> r = None"
      by auto
    show ?thesis
    proof (cases "traversal_fails child")
      case True
      with child obtain oe where "r = Some (PathError oe)" by blast
      with Inr w True show ?thesis by (simp add: Let_def)
    next
      case False
      with child have r: "r = None" by blast
      from "6.IH"(4) [OF refl Inr w [symmetric] r "6.prems"]
      show ?thesis using Inr w r False by (simp add: Let_def)
    qed
  qed
qed

lemma Walk_fails:
  fixes walkFn :: "'a WalkFunc"
  assumes "hands_back_errors walkFn" and "traversal_fails node"
  shows "\<exists>oe. fst (Walk root node walkFn acc) = Some (PathError oe)"
proof (cases "lstat node")
  case (Inl e)
  have "walkFn root None (Some (PathError e)) acc = (Some (PathError e), acc)"
    using assms(1) by (simp add: hands_back_errors_def)
  with Inl show ?thesis by (simp add: Walk_def)
next
  case (Inr info)
  from walk_fails_iff(1) [OF assms(1), of node root acc] assms(2)
  obtain oe where "fst (walk root node walkFn acc) = Some (PathError oe)" by blast
  with Inr show ?thesis by (auto simp add: Walk_def split: prod.splits)
qed

lemma Walk_succeeds:
  fixes walkFn :: "'a WalkFunc"
  assumes "hands_back_errors walkFn" and "\<not> traversal_fails node"
  shows "fst (Walk root node walkFn acc) = None"
proof (cases "lstat node")
  case (Inl e)
  with assms(2) show ?thesis by (cases node) simp_all
next
  case (Inr info)
  from walk_fails_iff(1) [OF assms(1), of node root acc] assms(2)
  have "fst (walk root node walkFn acc) = None" by blast
  with Inr show ?thesis by (auto simp add: Walk_def split: prod.splits)
qed

lemma discoverFiles_fails:
  assumes "traversal_fails node"
  shows "\<exists>oe. discoverFiles dirPath node = Inl (Wrap ''failed to discover files: '' (PathError oe) [])"
proof -
  from Walk_fails [OF discoverFiles_fn_hands_back assms, of dirPath dirPath "[]"]
  obtain oe where "fst (Walk dirPath node (discoverFiles_fn dirPath) []) = Some (PathError oe)"
    by blast
  then have "discoverFiles dirPath node = Inl (Wrap ''failed to discover files: '' (PathError oe) [])"
    by (auto simp add: discoverFiles_def split: prod.splits option.splits)
  then show ?thesis by blast
qed

lemma discoverFiles_succeeds:
  assumes "\<not> traversal_fails node"
  shows "\<exists>files. discoverFiles dirPath node = Inr files"
proof -
  from Walk_succeeds [OF discoverFiles_fn_hands_back assms, of dirPath dirPath "[]"]
  have "fst (Walk dirPath node (discoverFiles_fn dirPath) []) = None" .
  then show ?thesis
    by (auto simp add: discoverFiles_def split: prod.splits option.splits)
qed

text \<open>
  C3. When the traversal of the working directory fails anywhere (a name that cannot be
  examined, a directory that cannot be read, at the root or below), \<open>discoverFiles\<close>
  returns an error and no list; \<open>invokeCmd.Run\<close> returns an error and leaves the state as
  it was, so nothing is printed and no command is run; \<open>main\<close> ends with status 1.
\<close>

theorem traversal_failure_aborts:
  assumes "traversal_fails (cwd st)"
  shows "(\<exists>oe. discoverFiles dirPath (cwd st) =
                Inl (Wrap ''failed to discover files: '' (PathError oe) []))
     \<and> (\<exists>err. invokeCmd_Run sh args st = (Some err, st))
     \<and> (\<exists>err. cobra_Execute sh (Invoke args) st = (Some err, st))
     \<and> fst (main sh (Invoke args) st) = 1
     \<and> procs (snd (main sh (Invoke args) st)) = procs st
     \<and> stdout (snd (main sh (Invoke args) st)) = stdout st"
proof -
  from discoverFiles_fails [OF assms]
  obtain oe where d: "discoverFiles ''.'' (cwd st) =
      Inl (Wrap ''failed to discover files: '' (PathError oe) [])"
    by blast
  then have run: "invokeCmd_Run sh args st =
      (Some (Wrap ''failed to discover files: ''
              (Wrap ''failed to discover files: '' (PathError oe) []) []), st)"
    by (simp add: invokeCmd_Run_def)
  then have ex: "\<exists>err. cobra_Execute sh (Invoke args) st = (Some err, st)"
    by (simp add: cobra_Execute_def)
  then obtain err where "cobra_Execute sh (Invoke args) st = (Some err, st)" by blast
  then have "main sh (Invoke args) st = (1, log_Printf [E err] st)"
    by (simp add: main_def)
  then have "fst (main sh (Invoke args) st) = 1"
    "procs (snd (main sh (Invoke args) st)) = procs st"
    "stdout (snd (main sh (Invoke args) st)) = stdout st"
    by (simp_all add: log_Printf_def)
  with discoverFiles_fails [OF assms, of dirPath] run ex show ?thesis by simp
qed

theorem traversal_failure_aborts_witness:
  "traversal_fails (cwd (process_start [] unreadable_below))
   \<and> discoverFiles ''.'' (cwd (process_start [] unreadable_below)) =
        Inl (Wrap ''failed to discover files: '' (PathError EACCES) [])
   \<and> fst (main all_fine (Invoke [''kubectl'', ''apply'']) (process_start [] unreadable_below)) = 1
   \<and> procs (snd (main all_fine (Invoke [''kubectl'', ''apply''])
                    (process_start [] unreadable_below))) = []
   \<and> traversal_fails (cwd (process_start [] (NoStat True ENOENT)))
   \<and> discoverFiles ''.'' (cwd (process_start [] (NoStat True ENOENT))) =
        Inl (Wrap ''failed to discover files: '' (PathError ENOENT) [])"
proof -
  have f1: "traversal_fails (cwd (process_start [] unreadable_below))"
    by (simp add: process_start_def unreadable_below_def)
  have f2: "traversal_fails (cwd (process_start [] (NoStat True ENOENT)))"
    by (simp add: process_start_def)
  have d1: "discoverFiles ''.'' (cwd (process_start [] unreadable_below)) =
        Inl (Wrap ''failed to discover files: '' (PathError EACCES) [])"
    by (simp add: process_start_def unreadable_below_def discoverFiles_def Walk_def
        discoverFiles_fn_def Clean_def Split.simps)
  have d2: "discoverFiles ''.'' (cwd (process_start [] (NoStat True ENOENT))) =
        Inl (Wrap ''failed to discover files: '' (PathError ENOENT) [])"
    by (simp add: process_start_def discoverFiles_def Walk_def discoverFiles_fn_def)
  from traversal_failure_aborts [OF f1, of "''.''" all_fine "[''kubectl'', ''apply'']"]
    traversal_failure_aborts [OF f2, of "''.''" all_fine "[''kubectl'', ''apply'']"]
    f1 f2 d1 d2
  show ?thesis by (simp add: process_start_def)
qed

text \<open>Copy 3 reads only the directory itself; when that fails, its hook runs no command either.\<close>

lemma PreExecute_ReadDir_failure:
  assumes "ReadDir (cwd st) = Inl e"
  shows "fst (invokeCmd_PreExecute sdk sh rg name override args st) \<noteq> None
     \<and> procs (snd (invokeCmd_PreExecute sdk sh rg name override args st)) = procs st"
  using assms
  by (auto simp add: invokeCmd_PreExecute_def Let_def setSubscription3_def discoverFiles3_def
        Printf_def split: prod.splits option.splits if_splits)

subsection \<open>The order of the listing\<close>

lemma sort_key_map_snd:
  "sort_key fst (map (\<lambda>e. (fst e, f (snd e))) es) = map (\<lambda>e. (fst e, f (snd e))) (sort_key fst es)"
proof (induction es)
  case Nil
  then show ?case by simp
next
  case (Cons e es)
  have ins: "\<And>xs. insort_key fst (fst e, f (snd e)) (map (\<lambda>e. (fst e, f (snd e))) xs) =
             map (\<lambda>e. (fst e, f (snd e))) (insort_key fst e xs)"
  proof -
    fix xs show "insort_key fst (fst e, f (snd e)) (map (\<lambda>e. (fst e, f (snd e))) xs) =
             map (\<lambda>e. (fst e, f (snd e))) (insort_key fst e xs)"
      by (induction xs) simp_all
  qed
  from Cons show ?case by (simp add: ins)
qed

lemma sort_key_twice: "sort_key k (sort_key k xs) = sort_key k xs"
  by (simp add: sort_key_id_if_sorted)

lemma lstat_listing_sorted: "lstat (listing_sorted node) = lstat node"
  by (cases node) simp_all

lemma walk_listing_sorted:
  fixes walkFn :: "'a WalkFunc"
  shows "walk path (listing_sorted node) walkFn acc = walk path node walkFn acc"
    and "walk_names path (map (\<lambda>e. (fst e, listing_sorted (snd e))) es) walkFn acc =
         walk_names path es walkFn acc"
proof (induction path node walkFn acc and path es walkFn acc rule: walk_walk_names.induct)
  case (1 path walkFn acc)
  then show ?case by simp
next
  case (2 path es walkFn acc)
  have "sort_key fst (sort_key fst (map (\<lambda>e. (fst e, listing_sorted (snd e))) es)) =
        map (\<lambda>e. (fst e, listing_sorted (snd e))) (sort_key fst es)"
    by (simp only: sort_key_twice sort_key_map_snd)
  with "2.IH" show ?case
    by (simp split: prod.splits option.splits)
next
  case (3 path e walkFn acc)
  then show ?case by simp
next
  case (4 path d e walkFn acc)
  then show ?case by simp
next
  case (5 path walkFn acc)
  then show ?case by simp
next
  case (6 path name child rest walkFn acc)
  let ?filename = "filepath_Join [path, name]"
  show ?case
  proof (cases "lstat child")
    case (Inl e)
    with "6.IH"(1,2) [OF refl Inl] show ?thesis
      by (simp add: Let_def lstat_listing_sorted del: filepath_Join.simps
          split: prod.splits option.splits)
  next
    case (Inr info)
    from "6.IH"(3) [OF refl Inr]
    have child: "walk ?filename (listing_sorted child) walkFn acc = walk ?filename child walkFn acc" .
    with "6.IH"(4,5) [OF refl Inr] Inr show ?thesis
      by (simp add: Let_def lstat_listing_sorted del: filepath_Join.simps
          split: prod.splits option.splits)
  qed
qed

lemma Walk_listing_sorted:
  "Walk root (listing_sorted node) walkFn acc = Walk root node walkFn acc"
  by (cases "lstat node")
    (simp_all add: Walk_def lstat_listing_sorted walk_listing_sorted(1))

lemma discoverFiles_listing_sorted:
  "discoverFiles dirPath (listing_sorted node) = discoverFiles dirPath node"
  by (simp add: discoverFiles_def Walk_listing_sorted)

text \<open>
  C5. \<open>discoverFiles\<close> is a function of the directory's state alone, and of that state
  only up to the order in which the system lists the entries: two runs on the same
  directory, however its entries are listed each time, return the same result, the same
  paths in the same order.
\<close>

theorem discoverFiles_deterministic:
  assumes "listing_sorted node' = listing_sorted node"
  shows "discoverFiles dirPath node' = discoverFiles dirPath node"
proof -
  have "discoverFiles dirPath node' = discoverFiles dirPath (listing_sorted node')"
    by (simp add: discoverFiles_listing_sorted)
  also have "\<dots> = discoverFiles dirPath (listing_sorted node)"
    using assms by simp
  also have "\<dots> = discoverFiles dirPath node"
    by (rule discoverFiles_listing_sorted)
  finally show ?thesis .
qed

theorem discoverFiles_deterministic_witness:
  "listing_sorted (Dir [(''a.txt'', File), (''sub'', Dir [(''y'', File), (''x'', File)]), (''b.yaml'', File)])
     = listing_sorted (Dir [(''sub'', Dir [(''x'', File), (''y'', File)]), (''b.yaml'', File), (''a.txt'', File)])
   \<and> discoverFiles ''.'' (Dir [(''a.txt'', File), (''sub'', Dir [(''y'', File), (''x'', File)]), (''b.yaml'', File)])
     = Inr [''a.txt'', ''b.yaml'', ''sub/x'', ''sub/y'']
   \<and> discoverFiles ''.'' (Dir [(''sub'', Dir [(''x'', File), (''y'', File)]), (''b.yaml'', File), (''a.txt'', File)])
     = Inr [''a.txt'', ''b.yaml'', ''sub/x'', ''sub/y'']"
proof -
  have same: "listing_sorted (Dir [(''a.txt'', File), (''sub'', Dir [(''y'', File), (''x'', File)]), (''b.yaml'', File)])
     = listing_sorted (Dir [(''sub'', Dir [(''x'', File), (''y'', File)]), (''b.yaml'', File), (''a.txt'', File)])"
    by simp
  have run: "discoverFiles ''.'' (Dir [(''sub'', Dir [(''x'', File), (''y'', File)]), (''b.yaml'', File), (''a.txt'', File)])
     = Inr [''a.txt'', ''b.yaml'', ''sub/x'', ''sub/y'']"
    by (simp add: discoverFiles_def Walk_def discoverFiles_fn_def Clean_def Split.simps)
  from discoverFiles_deterministic [OF same, of "''.''"] same run
  show ?thesis by simp
qed

subsection \<open>The two ways to list the directory\<close>

lemma Index_char_None: "Index s [c] = None \<Longrightarrow> c \<notin> set s"
proof
  assume none: "Index s [c] = None" and "c \<in> set s"
  then obtain u v where "s = u @ c # v" by (meson split_list)
  then have "s = u @ [c] @ v" by simp
  then have "Index s [c] \<noteq> None" unfolding Index_found_iff by blast
  with none show False by simp
qed

lemma Index_char_Some: "Index s [c] = Some m \<Longrightarrow> c \<notin> set (take m s)"
proof
  assume some: "Index s [c] = Some m" and "c \<in> set (take m s)"
  then obtain u v where uv: "take m s = u @ c # v" by (meson split_list)
  have "s = take m s @ drop m s" by simp
  with uv have "s = u @ [c] @ (v @ drop m s)" by simp
  then obtain m' where m': "Index s [c] = Some m'" "m' \<le> length u"
    using Index_first by blast
  from uv have "length u < length (take m s)" by simp
  then have "length u < m" by simp
  with m' some show False by simp
qed

lemma Split_char_free: "x \<in> set (Split s [c]) \<Longrightarrow> c \<notin> set x"
proof (induction s "[c]" arbitrary: x rule: Split.induct)
  case (1 s)
  show ?case
  proof (cases "Index s [c]")
    case None
    with "1.prems" have "x = s" by (subst (asm) Split.simps) simp
    with None show ?thesis using Index_char_None by blast
  next
    case (Some m)
    with "1.prems" have "x = take m s \<or> x \<in> set (Split (drop (m + length [c]) s) [c])"
      by (subst (asm) Split.simps) simp
    then show ?thesis
    proof
      assume "x = take m s"
      with Some show ?thesis using Index_char_Some by blast
    next
      assume "x \<in> set (Split (drop (m + length [c]) s) [c])"
      with "1.hyps" [OF _ Some] show ?thesis by simp
    qed
  qed
qed

lemma cleanElems_plain:
  assumes "\<forall>x\<in>set out. plain x" and "\<forall>e\<in>set es. CHR ''/'' \<notin> set e"
  shows "\<forall>x\<in>set (cleanElems rooted es out). plain x"
  using assms
proof (induction es arbitrary: out)
  case Nil
  then show ?case by simp
next
  case (Cons e es)
  have rest: "\<forall>e\<in>set es. CHR ''/'' \<notin> set e" using Cons.prems(2) by simp
  have e: "CHR ''/'' \<notin> set e" using Cons.prems(2) by simp
  define out' where "out' =
    (if e = [] \<or> e = ''.'' then out
     else if e = ''..'' then
       (case out of
          [] \<Rightarrow> if rooted then [] else [''..'']
        | x # xs \<Rightarrow> if x = ''..'' then ''..'' # out else xs)
     else e # out)"
  have step: "cleanElems rooted (e # es) out = cleanElems rooted es out'"
    unfolding out'_def by (simp split: list.splits)
  have dd: "plain ''..''" by (simp add: plain_def)
  have "\<forall>x\<in>set out'. plain x"
  proof (cases "e = [] \<or> e = ''.''")
    case True
    with Cons.prems(1) show ?thesis unfolding out'_def by simp
  next
    case False
    note not_dot = this
    show ?thesis
    proof (cases "e = ''..''")
      case True
      show ?thesis
      proof (cases out)
        case Nil
        with not_dot True dd show ?thesis unfolding out'_def by simp
      next
        case (Cons x xs)
        with Cons.prems(1) have "\<forall>y\<in>set xs. plain y" "\<forall>y\<in>set (x # xs). plain y"
          by simp_all
        with not_dot True dd Cons show ?thesis unfolding out'_def by simp
      qed
    next
      case False
      from e not_dot have "plain e" by (simp add: plain_def)
      with Cons.prems(1) not_dot False show ?thesis unfolding out'_def by simp
    qed
  qed
  from Cons.IH [OF this rest] step show ?case by simp
qed

lemma Join_plain_last:
  assumes "xs \<noteq> []" and "\<forall>x\<in>set xs. plain x"
  shows "Join xs ''/'' \<noteq> [] \<and> last (Join xs ''/'') \<noteq> CHR ''/''"
  using assms
proof (induction xs "''/''" rule: Join.induct)
  case 1
  then show ?case by simp
next
  case (2 e)
  then have ne: "e \<noteq> []" and nf: "CHR ''/'' \<notin> set e" by (simp_all add: plain_def)
  from ne have mem: "last e \<in> set e" by (rule last_in_set)
  have "last e \<noteq> CHR ''/''"
  proof
    assume eq: "last e = CHR ''/''"
    from mem have "CHR ''/'' \<in> set e" unfolding eq .
    with nf show False by (rule notE)
  qed
  with ne show ?case by simp
next
  case (3 e v va)
  then show ?case by simp
qed

lemma Clean_trailing_slash:
  assumes "Clean p = q @ ''/''"
  shows "q = []"
proof (cases "p = []")
  case True
  with assms show ?thesis by (simp add: Clean_def)
next
  case False
  define rooted where "rooted = HasPrefix p ''/''"
  define out where "out = cleanElems rooted (Split p ''/'') []"
  have good: "\<forall>x\<in>set (rev out). plain x"
    unfolding out_def using cleanElems_plain [of "[]" "Split p ''/''" rooted] Split_char_free
    by auto
  have form: "Clean p = (if rooted then ''/'' @ Join (rev out) ''/''
                         else if out = [] then ''.'' else Join (rev out) ''/'')"
    using False by (simp add: Clean_def Let_def rooted_def out_def)
  show ?thesis
  proof (cases "out = []")
    case True
    with form have "Clean p = ''/'' \<or> Clean p = ''.''" by simp
    with assms show ?thesis by auto
  next
    case False
    with good have j: "Join (rev out) ''/'' \<noteq> []" "last (Join (rev out) ''/'') \<noteq> CHR ''/''"
      using Join_plain_last [of "rev out"] by simp_all
    from form False
    have "Clean p = ''/'' @ Join (rev out) ''/'' \<or> Clean p = Join (rev out) ''/''"
      by simp
    then have "last (Clean p) = last (Join (rev out) ''/'')"
      using j(1) by auto
    with j(2) assms show ?thesis by simp
  qed
qed

lemma count_files_zero: "count_files node = 0 \<longleftrightarrow> \<not> holds_file node"
  by (induction node rule: count_files.induct) (auto simp add: list_ex_iff)

lemma sum_list_sort_key:
  fixes f :: "'a \<Rightarrow> nat"
  shows "sum_list (map f (sort_key k xs)) = sum_list (map f xs)"
proof -
  have "sum_mset (mset (map f (sort_key k xs))) = sum_mset (mset (map f xs))" by simp
  then show ?thesis by (simp only: sum_mset_sum_list)
qed

lemma filepath_Join_Clean:
  "filepath_Join [path, name] = [] \<or> (\<exists>p. filepath_Join [path, name] = Clean p)"
proof (cases "path = []")
  case True
  then show ?thesis by (cases "name = []") auto
next
  case False
  then have "filepath_Join [path, name] = Clean (Join [path, name] ''/'')" by simp
  then show ?thesis by blast
qed

lemma filepath_Join_guard:
  assumes "dir \<noteq> []"
  shows "filepath_Join [path, name] \<noteq> dir @ ''/''"
proof
  assume eq: "filepath_Join [path, name] = dir @ ''/''"
  from filepath_Join_Clean [of path name] eq
  obtain p where "Clean p = dir @ ''/''" by auto
  then have "dir = []" by (rule Clean_trailing_slash)
  with assms show False by simp
qed

lemma walk_found:
  shows "walkFn = discoverFiles_fn dir \<Longrightarrow> dir \<noteq> [] \<Longrightarrow> path \<noteq> dir @ ''/'' \<Longrightarrow>
         \<not> traversal_fails node \<Longrightarrow>
         \<exists>found. walk path node walkFn acc = (None, acc @ found)
                \<and> length found = count_files node"
    and "walkFn = discoverFiles_fn dir \<Longrightarrow> dir \<noteq> [] \<Longrightarrow>
         \<not> list_ex (\<lambda>e. traversal_fails (snd e)) es \<Longrightarrow>
         \<exists>found. walk_names path es walkFn acc = (None, acc @ found)
                \<and> length found = sum_list (map (\<lambda>e. count_files (snd e)) es)"
proof (induction path node walkFn acc and path es walkFn acc rule: walk_walk_names.induct)
  case (1 path walkFn acc)
  then show ?case by (simp add: discoverFiles_fn_def)
next
  case (2 path es walkFn acc)
  have first: "walkFn path (Some (FileInfo True)) None acc = (None, acc)"
    using "2.prems"(1) by (simp add: discoverFiles_fn_def)
  have "\<not> list_ex (\<lambda>e. traversal_fails (snd e)) (sort_key fst es)"
    using "2.prems"(4) by (simp add: list_ex_iff)
  from "2.IH" [OF first [symmetric] refl "2.prems"(1,2) this]
  obtain found where "walk_names path (sort_key fst es) walkFn acc = (None, acc @ found)"
    "length found = sum_list (map (\<lambda>e. count_files (snd e)) (sort_key fst es))"
    by blast
  with first show ?case by (simp add: sum_list_sort_key)
next
  case (3 path e walkFn acc)
  then show ?case by simp
next
  case (4 path d e walkFn acc)
  then show ?case by simp
next
  case (5 path walkFn acc)
  then show ?case by simp
next
  case (6 path name child rest walkFn acc)
  let ?filename = "filepath_Join [path, name]"
  from "6.prems"(3) have ok: "\<not> traversal_fails child"
    and rest: "\<not> list_ex (\<lambda>e. traversal_fails (snd e)) rest"
    by simp_all
  from ok obtain info where info: "lstat child = Inr info" by (cases child) simp_all
  have guard: "?filename \<noteq> dir @ ''/''"
    using "6.prems"(2) by (rule filepath_Join_guard)
  from "6.IH"(3) [OF refl info "6.prems"(1,2) guard ok]
  obtain found1 where w: "walk ?filename child walkFn acc = (None, acc @ found1)"
    and n1: "length found1 = count_files child"
    by blast
  from "6.IH"(4) [OF refl info w [symmetric] refl "6.prems"(1,2) rest]
  obtain found2 where ws: "walk_names path rest walkFn (acc @ found1) = (None, (acc @ found1) @ found2)"
    and n2: "length found2 = sum_list (map (\<lambda>e. count_files (snd e)) rest)"
    by blast
  have "walk_names path ((name, child) # rest) walkFn acc = (None, acc @ (found1 @ found2))"
    using info w ws by (simp add: Let_def del: filepath_Join.simps)
  moreover have "length (found1 @ found2) =
      sum_list (map (\<lambda>e. count_files (snd e)) ((name, child) # rest))"
    using n1 n2 by simp
  ultimately show ?case by blast
qed

lemma walk_names_flat:
  assumes "dir \<noteq> []"
    and "\<forall>e\<in>set es. \<not> traversal_fails (snd e) \<and> (snd e \<noteq> File \<longrightarrow> \<not> holds_file (snd e))"
  shows "walk_names path es (discoverFiles_fn dir) acc =
           (None, acc @ map (\<lambda>e. filepath_Join [path, fst e]) (filter (\<lambda>e. snd e = File) es))"
  using assms(2)
proof (induction es arbitrary: acc)
  case Nil
  then show ?case by simp
next
  case (Cons e es)
  obtain name child where e: "e = (name, child)" by (cases e)
  let ?filename = "filepath_Join [path, name]"
  from Cons.prems e have ok: "\<not> traversal_fails child"
    and empty: "child \<noteq> File \<longrightarrow> \<not> holds_file child"
    and rest: "\<forall>e\<in>set es. \<not> traversal_fails (snd e) \<and> (snd e \<noteq> File \<longrightarrow> \<not> holds_file (snd e))"
    by simp_all
  from ok obtain info where info: "lstat child = Inr info" by (cases child) simp_all
  have guard: "?filename \<noteq> dir @ ''/''" using assms(1) by (rule filepath_Join_guard)
  from walk_found(1) [OF refl assms(1) guard ok, of acc]
  obtain found where w: "walk ?filename child (discoverFiles_fn dir) acc = (None, acc @ found)"
    and n: "length found = count_files child"
    by blast
  have found: "found = (if child = File then [?filename] else [])"
  proof (cases "child = File")
    case True
    with w guard show ?thesis by (simp add: discoverFiles_fn_def del: filepath_Join.simps)
  next
    case False
    with empty have "count_files child = 0" by (simp add: count_files_zero)
    with n False show ?thesis by simp
  qed
  have "walk_names path es (discoverFiles_fn dir) (acc @ found) =
        (None, (acc @ found) @ map (\<lambda>e. filepath_Join [path, fst e]) (filter (\<lambda>e. snd e = File) es))"
    using rest by (rule Cons.IH)
  with info w found e show ?case
    by (simp add: Let_def del: filepath_Join.simps)
qed

lemma discoverFiles3_loop_eq:
  "discoverFiles3_loop dir files entries =
     files @ map (\<lambda>entry. filepath_Join [dir, Name entry])
               (filter (\<lambda>entry. \<not> entryIsDir entry) entries)"
  by (induction entries arbitrary: files) (simp_all del: filepath_Join.simps)

lemma discoverFiles3_Dir:
  "discoverFiles3 dir (Dir es) =
     Inr (map (\<lambda>e. filepath_Join [dir, fst e])
            (filter (\<lambda>e. \<not> hasDirType (snd e)) (sort_key fst es)))"
proof -
  have "map (\<lambda>entry. filepath_Join [dir, Name entry])
          (filter (\<lambda>entry. \<not> entryIsDir entry)
             (map (\<lambda>(name, child). DirEntry name (hasDirType child)) xs)) =
        map (\<lambda>e. filepath_Join [dir, fst e]) (filter (\<lambda>e. \<not> hasDirType (snd e)) xs)"
    for xs :: "(string \<times> fsnode) list"
    by (induction xs) (auto simp del: filepath_Join.simps)
  then show ?thesis
    by (simp add: discoverFiles3_def discoverFiles3_loop_eq del: filepath_Join.simps)
qed

lemma no_failure_type: "\<not> traversal_fails node \<Longrightarrow> hasDirType node \<longleftrightarrow> node \<noteq> File"
  by (cases node) simp_all

lemma count_files_split:
  assumes "\<forall>e\<in>set es. \<not> traversal_fails (snd e)"
  shows "sum_list (map (\<lambda>e. count_files (snd e)) es) =
           length (filter (\<lambda>e. \<not> hasDirType (snd e)) es)
           + sum_list (map (\<lambda>e. count_files (snd e)) (filter (\<lambda>e. snd e \<noteq> File) es))"
  using assms
proof (induction es)
  case Nil
  then show ?case by simp
next
  case (Cons e es)
  then have "\<not> traversal_fails (snd e)" by simp
  then have "hasDirType (snd e) \<longleftrightarrow> snd e \<noteq> File" by (rule no_failure_type)
  with Cons show ?case by (cases "snd e = File") simp_all
qed

lemma discoverFiles_Dir_found:
  assumes "dir \<noteq> []" and "\<not> traversal_fails (Dir es)"
  shows "\<exists>found. discoverFiles dir (Dir es) = Inr found \<and> length found = count_files (Dir es)"
proof -
  have "dir \<noteq> dir @ ''/''" by simp
  from walk_found(1) [OF refl assms(1) this assms(2), of "[]"]
  obtain found where "walk dir (Dir es) (discoverFiles_fn dir) [] = (None, [] @ found)"
    and "length found = count_files (Dir es)"
    by blast
  then have "discoverFiles dir (Dir es) = Inr found \<and> length found = count_files (Dir es)"
    by (simp add: discoverFiles_def Walk_def)
  then show ?thesis by blast
qed

lemma discoverFiles_Dir_flat:
  assumes "dir \<noteq> []" and "\<not> traversal_fails (Dir es)"
    and "\<forall>e\<in>set es. snd e \<noteq> File \<longrightarrow> \<not> holds_file (snd e)"
  shows "discoverFiles dir (Dir es) =
           Inr (map (\<lambda>e. filepath_Join [dir, fst e])
                  (filter (\<lambda>e. snd e = File) (sort_key fst es)))"
    and "discoverFiles3 dir (Dir es) = discoverFiles dir (Dir es)"
proof -
  let ?sorted = "sort_key fst es"
  from assms(2) have ok: "\<forall>e\<in>set es. \<not> traversal_fails (snd e)"
    by (simp add: list_ex_iff)
  with assms(3)
  have "\<forall>e\<in>set ?sorted. \<not> traversal_fails (snd e) \<and> (snd e \<noteq> File \<longrightarrow> \<not> holds_file (snd e))"
    by simp
  with assms(1)
  have "walk_names dir ?sorted (discoverFiles_fn dir) [] =
        (None, [] @ map (\<lambda>e. filepath_Join [dir, fst e]) (filter (\<lambda>e. snd e = File) ?sorted))"
    by (rule walk_names_flat)
  then show v1: "discoverFiles dir (Dir es) =
           Inr (map (\<lambda>e. filepath_Join [dir, fst e]) (filter (\<lambda>e. snd e = File) ?sorted))"
    by (simp add: discoverFiles_def Walk_def discoverFiles_fn_def del: filepath_Join.simps)
  have "filter (\<lambda>e. \<not> hasDirType (snd e)) ?sorted = filter (\<lambda>e. snd e = File) ?sorted"
    using ok by (intro filter_cong refl) (simp add: no_failure_type)
  with v1 show "discoverFiles3 dir (Dir es) = discoverFiles dir (Dir es)"
    by (simp add: discoverFiles3_Dir del: filepath_Join.simps)
qed

text \<open>
  C8, amended. For a directory that can be read, and a directory path that is not empty,
  \<open>discoverFiles\<close> of copies 1, 2 and 4 and \<open>discoverFiles\<close> of copy 3 return the same
  result exactly when the walk meets no error below the directory and no subdirectory
  holds a file, at any depth; the result is then the list of the joined paths of the
  directory's own files in the order of their names. When the directory itself cannot
  be read or examined, both return an error and no list.
\<close>

theorem discovery_variants_agree_iff:
  assumes "dir \<noteq> []"
  shows "(discoverFiles dir (Dir es) = discoverFiles3 dir (Dir es) \<longleftrightarrow>
            \<not> traversal_fails (Dir es)
            \<and> (\<forall>e\<in>set es. snd e \<noteq> File \<longrightarrow> \<not> holds_file (snd e)))
     \<and> (\<not> traversal_fails (Dir es)
          \<and> (\<forall>e\<in>set es. snd e \<noteq> File \<longrightarrow> \<not> holds_file (snd e)) \<longrightarrow>
          discoverFiles dir (Dir es) =
            Inr (map (\<lambda>e. filepath_Join [dir, fst e])
                   (filter (\<lambda>e. snd e = File) (sort_key fst es))))
     \<and> (\<exists>err. discoverFiles dir (DirNoRead oe) = Inl err)
     \<and> discoverFiles3 dir (DirNoRead oe) = Inl (PathError oe)
     \<and> (\<exists>err. discoverFiles dir (NoStat d oe) = Inl err)
     \<and> discoverFiles3 dir (NoStat d oe) = Inl (PathError oe)"
proof -
  let ?cond = "\<not> traversal_fails (Dir es)
            \<and> (\<forall>e\<in>set es. snd e \<noteq> File \<longrightarrow> \<not> holds_file (snd e))"
  have sufficient: "?cond \<longrightarrow> discoverFiles dir (Dir es) = discoverFiles3 dir (Dir es)"
    using discoverFiles_Dir_flat(2) [OF assms, of es] by simp
  have necessary: "?cond" if same: "discoverFiles dir (Dir es) = discoverFiles3 dir (Dir es)"
  proof -
    have no_failure: "\<not> traversal_fails (Dir es)"
    proof
      assume "traversal_fails (Dir es)"
      then obtain oe' where "discoverFiles dir (Dir es) =
          Inl (Wrap ''failed to discover files: '' (PathError oe') [])"
        using discoverFiles_fails by blast
      with same show False by (simp add: discoverFiles3_Dir del: filepath_Join.simps)
    qed
    then have ok: "\<forall>e\<in>set es. \<not> traversal_fails (snd e)" by (simp add: list_ex_iff)
    from discoverFiles_Dir_found [OF assms no_failure]
    obtain found where found: "discoverFiles dir (Dir es) = Inr found"
      and n: "length found = count_files (Dir es)"
      by blast
    from found same
    have "found = map (\<lambda>e. filepath_Join [dir, fst e])
                    (filter (\<lambda>e. \<not> hasDirType (snd e)) (sort_key fst es))"
      by (simp add: discoverFiles3_Dir del: filepath_Join.simps)
    then have "length found = length (filter (\<lambda>e. \<not> hasDirType (snd e)) (sort_key fst es))"
      by simp
    also have "\<dots> = length (filter (\<lambda>e. \<not> hasDirType (snd e)) es)"
      by (simp add: filter_sort)
    finally have "count_files (Dir es) = length (filter (\<lambda>e. \<not> hasDirType (snd e)) es)"
      using n by simp
    with count_files_split [OF ok]
    have "sum_list (map (\<lambda>e. count_files (snd e)) (filter (\<lambda>e. snd e \<noteq> File) es)) = 0"
      by simp
    then have "\<forall>e\<in>set es. snd e \<noteq> File \<longrightarrow> count_files (snd e) = 0"
      by auto
    with no_failure show ?thesis by (simp add: count_files_zero)
  qed
  have flat: "?cond \<longrightarrow> discoverFiles dir (Dir es) =
            Inr (map (\<lambda>e. filepath_Join [dir, fst e])
                   (filter (\<lambda>e. snd e = File) (sort_key fst es)))"
    using discoverFiles_Dir_flat(1) [OF assms, of es] by simp
  have unreadable: "\<exists>err. discoverFiles dir (DirNoRead oe) = Inl err"
    "\<exists>err. discoverFiles dir (NoStat d oe) = Inl err"
    using discoverFiles_fails [of "DirNoRead oe" dir] discoverFiles_fails [of "NoStat d oe" dir]
    by auto
  have unreadable3: "discoverFiles3 dir (DirNoRead oe) = Inl (PathError oe)"
    "discoverFiles3 dir (NoStat d oe) = Inl (PathError oe)"
    by (simp_all add: discoverFiles3_def)
  from sufficient necessary flat unreadable unreadable3 show ?thesis by blast
qed

theorem discovery_variants_agree_iff_witness:
  "\<not> traversal_fails with_empty_subdirectory
   \<and> \<not> holds_file (Dir [(''empty'', Dir [])])
   \<and> discoverFiles ''.'' with_empty_subdirectory = Inr [''a.txt'', ''b.yaml'']
   \<and> discoverFiles3 ''.'' with_empty_subdirectory = Inr [''a.txt'', ''b.yaml'']
   \<and> holds_file (Dir [(''c.yaml'', File)])
   \<and> discoverFiles ''.'' with_subdirectory \<noteq> discoverFiles3 ''.'' with_subdirectory"
proof -
  let ?es = "[(''b.yaml'', File), (''sub'', Dir [(''empty'', Dir [])]), (''a.txt'', File)]"
  let ?fs = "[(''a.txt'', File), (''sub'', Dir [(''c.yaml'', File)])]"
  have dot: "''.'' \<noteq> []" by simp
  have ok: "\<not> traversal_fails (Dir ?es)" by simp
  have empty: "\<forall>e\<in>set ?es. snd e \<noteq> File \<longrightarrow> \<not> holds_file (snd e)" by simp
  have full: "\<not> (\<forall>e\<in>set ?fs. snd e \<noteq> File \<longrightarrow> \<not> holds_file (snd e))" by simp
  have run3: "discoverFiles3 ''.'' (Dir ?es) = Inr [''a.txt'', ''b.yaml'']"
    by (simp add: discoverFiles3_def Clean_def Split.simps)
  from discovery_variants_agree_iff [OF dot, of ?es] ok empty
  have same: "discoverFiles ''.'' (Dir ?es) = discoverFiles3 ''.'' (Dir ?es)" by blast
  from discovery_variants_agree_iff [OF dot, of ?fs] full
  have differ: "discoverFiles ''.'' (Dir ?fs) \<noteq> discoverFiles3 ''.'' (Dir ?fs)" by blast
  from ok same run3 differ show ?thesis
    by (simp add: with_empty_subdirectory_def with_subdirectory_def)
qed

text \<open>
  C8 as stated fails: a file inside a subdirectory is found by the walk and not by the
  flat listing.
\<close>

theorem discovery_variants_differ_counterexample:
  "discoverFiles ''.'' with_subdirectory = Inr [''a.txt'', ''sub/c.yaml'']
   \<and> discoverFiles3 ''.'' with_subdirectory = Inr [''a.txt'']
   \<and> discoverFiles ''.'' with_subdirectory \<noteq> discoverFiles3 ''.'' with_subdirectory"
  by (simp add: with_subdirectory_def discoverFiles_def Walk_def discoverFiles_fn_def
        discoverFiles3_def Clean_def Split.simps)

end
